(* ===== verification/Bluez_Prelude.thy ===== *)
theory Bluez_Prelude
  imports Main "HOL-Library.Word"
begin

section \<open>Shared types, byte order and bounded memory\<close>

text \<open>
  What every component uses: names for the machine integers, big-endian and
  little-endian views of byte strings (the code's \<open>htons\<close>, \<open>htonl\<close> and
  \<open>bt_get_unaligned\<close>), the result type of code that can read or write outside an
  object or run forever, and the byte-array accesses of such code.

  The host is little-endian (the targets of this tree are ARM and x86), which only
  matters where the source itself switches on \<open>__BYTE_ORDER\<close> or overlays a union.
  Allocation succeeds: the out-of-memory returns of the source are not modelled.
\<close>

type_synonym byte = "8 word"
type_synonym u16 = "16 word"
type_synonym u32 = "32 word"
type_synonym u64 = "64 word"

text \<open>Collections: equations that unfold the model, and facts about results of runs.\<close>

named_theorems run_simps \<open>evaluation of runs\<close>
named_theorems enc_simps \<open>byte-string encodings\<close>

subsection \<open>Runs: a value, an access outside an object, or no end in sight\<close>

datatype 'a run = Ret 'a | Fault | NoFuel

primrec run_bind :: "'a run \<Rightarrow> ('a \<Rightarrow> 'b run) \<Rightarrow> 'b run" where
  "run_bind (Ret x) f = f x"
| "run_bind Fault f = Fault"
| "run_bind NoFuel f = NoFuel"

declare run_bind.simps [run_simps]

lemma run_bind_eq_Ret [simp]: "run_bind m f = Ret y \<longleftrightarrow> (\<exists>x. m = Ret x \<and> f x = Ret y)"
  by (cases m) auto

lemma run_bind_eq_Fault: "run_bind m f = Fault \<longleftrightarrow> m = Fault \<or> (\<exists>x. m = Ret x \<and> f x = Fault)"
  by (cases m) auto

lemma run_bind_assoc: "run_bind (run_bind m f) g = run_bind m (\<lambda>x. run_bind (f x) g)"
  by (cases m) auto

lemma run_bind_cong [fundef_cong]:
  "m = m' \<Longrightarrow> (\<And>x. m' = Ret x \<Longrightarrow> f x = f' x) \<Longrightarrow> run_bind m f = run_bind m' f'"
  by (cases m') auto

subsection \<open>Byte order\<close>

text \<open>
  \<open>put_be n x\<close> is the \<open>n\<close>-byte network-order image of \<open>x\<close> (what
  \<open>bt_put_unaligned(htons(x), p)\<close> leaves at \<open>p\<close>), \<open>get_be\<close> the value
  read back (\<open>ntohs(bt_get_unaligned(p))\<close>); \<open>put_le\<close> and \<open>get_le\<close> are the
  host's own order.
\<close>

fun put_be :: "nat \<Rightarrow> nat \<Rightarrow> byte list" where
  "put_be 0 x = []"
| "put_be (Suc n) x = put_be n (x div 256) @ [of_nat x]"

definition get_be :: "byte list \<Rightarrow> nat" where
  "get_be bs = foldl (\<lambda>a b. a * 256 + unat b) 0 bs"

definition put_le :: "nat \<Rightarrow> nat \<Rightarrow> byte list" where
  "put_le n x = rev (put_be n x)"

definition get_le :: "byte list \<Rightarrow> nat" where
  "get_le bs = get_be (rev bs)"

definition htons :: "u16 \<Rightarrow> u16" where
  "htons w = of_nat (get_le (put_be 2 (unat w)))"

definition htonl :: "u32 \<Rightarrow> u32" where
  "htonl w = of_nat (get_le (put_be 4 (unat w)))"

lemma length_put_be [simp, enc_simps]: "length (put_be n x) = n"
  by (induction n arbitrary: x) auto

lemma length_put_le [simp, enc_simps]: "length (put_le n x) = n"
  by (simp add: put_le_def)

lemma get_be_Nil [simp]: "get_be [] = 0"
  by (simp add: get_be_def)

lemma get_be_snoc [simp]: "get_be (bs @ [b]) = get_be bs * 256 + unat b"
  by (simp add: get_be_def)

lemma unat_byte_less [simp]: "unat (b :: byte) < 256"
  using unsigned_less [of b] by simp

lemma unat_ucast_mod: "unat (ucast (w :: 'a::len word) :: 'b::len word) = unat w mod 2 ^ LENGTH('b)"
  by (simp add: unsigned_ucast_eq take_bit_eq_mod)

lemma get_be_bound: "get_be bs < 256 ^ length bs"
proof (induction bs rule: rev_induct)
  case (snoc b bs)
  have "get_be bs * 256 + unat b < (get_be bs + 1) * 256"
    using unat_byte_less [of b] by simp
  also have "\<dots> \<le> 256 ^ length bs * 256"
    using snoc by (intro mult_le_mono1) simp
  finally show ?case by simp
qed simp

lemma unat_of_nat_byte: "unat (of_nat x :: byte) = x mod 256"
  by (simp add: unat_of_nat)

lemma get_be_put_be: "get_be (put_be n x) = x mod 256 ^ n"
proof (induction n arbitrary: x)
  case (Suc n)
  have "x mod 256 ^ Suc n = (x div 256) mod 256 ^ n * 256 + x mod 256"
    using mod_mult2_eq [of x 256 "256 ^ n"] by simp
  then show ?case
    by (simp add: Suc.IH unat_of_nat_byte)
qed simp

lemma get_be_put_be_id [enc_simps]: "x < 256 ^ n \<Longrightarrow> get_be (put_be n x) = x"
  by (simp add: get_be_put_be)

lemma put_be_get_be: "put_be (length bs) (get_be bs) = bs"
proof (induction bs rule: rev_induct)
  case (snoc b bs)
  have d: "(get_be bs * 256 + unat b) div 256 = get_be bs"
    by simp
  have m: "of_nat (get_be bs * 256 + unat b) = b"
    by (simp only: word_unat_eq_iff unat_of_nat_byte) simp
  have "put_be (length (bs @ [b])) (get_be (bs @ [b]))
      = put_be (length bs) ((get_be bs * 256 + unat b) div 256) @ [of_nat (get_be bs * 256 + unat b)]"
    by simp
  also have "\<dots> = bs @ [b]"
    unfolding d m snoc ..
  finally show ?case .
qed simp

lemma put_be_add: "put_be (m + n) x = put_be m (x div 256 ^ n) @ put_be n x"
  by (induction n arbitrary: x) (simp_all add: div_mult2_eq)

lemma put_be_zero: "put_be n 0 = replicate n 0"
  by (induction n) (simp_all add: replicate_append_same)

lemma put_be_4_small: "x < 65536 \<Longrightarrow> put_be 4 x = [0, 0] @ put_be 2 x"
proof -
  assume "x < 65536"
  then have "x div 256 ^ 2 = 0" by simp
  moreover have "(4 :: nat) = 2 + 2" and "replicate 2 (0 :: byte) = [0, 0]"
    by (simp_all add: numeral_2_eq_2)
  ultimately show ?thesis by (simp only: put_be_add put_be_zero)
qed

lemma get_be_inj: "length xs = length ys \<Longrightarrow> get_be xs = get_be ys \<Longrightarrow> xs = ys"
  by (metis put_be_get_be)

lemma put_be_inj: "put_be n x = put_be n y \<Longrightarrow> x < 256 ^ n \<Longrightarrow> y < 256 ^ n \<Longrightarrow> x = y"
  by (metis get_be_put_be_id)

lemma put_be_small:
  "put_be 1 x = [of_nat x]" "put_be 2 x = [of_nat (x div 256), of_nat x]"
  by (simp_all add: numeral_2_eq_2)

text \<open>Network order computed on the host: the image of \<open>htons\<close> and \<open>htonl\<close> values.\<close>

lemma put_be_cong: "x mod 256 ^ n = y mod 256 ^ n \<Longrightarrow> put_be n x = put_be n y"
  by (rule get_be_inj) (simp_all add: get_be_put_be)

lemma put_le_htons: "put_le 2 (unat (htons w)) = put_be 2 (unat w)"
proof -
  let ?l = "rev (put_be 2 (unat w))"
  have "get_be ?l < 65536" using get_be_bound [of ?l] by simp
  then have "unat (htons w) = get_be ?l"
    by (simp add: htons_def get_le_def unat_of_nat)
  with put_be_get_be [of ?l] show ?thesis
    by (simp add: put_le_def)
qed

lemma put_le_htonl: "put_le 4 (unat (htonl w)) = put_be 4 (unat w)"
proof -
  let ?l = "rev (put_be 4 (unat w))"
  have "get_be ?l < 4294967296" using get_be_bound [of ?l] by simp
  then have "unat (htonl w) = get_be ?l"
    by (simp add: htonl_def get_le_def unat_of_nat)
  with put_be_get_be [of ?l] show ?thesis
    by (simp add: put_le_def)
qed

subsection \<open>memcmp\<close>

text \<open>
  The sign of \<open>memcmp\<close> on two equally long byte strings: the first byte that differs
  decides. The C library promises the sign only, so the model answers -1, 0 or 1.
\<close>

fun memcmp :: "byte list \<Rightarrow> byte list \<Rightarrow> int" where
  "memcmp (x # xs) (y # ys) = (if x = y then memcmp xs ys else if x < y then -1 else 1)"
| "memcmp _ _ = 0"

lemma get_be_Cons: "get_be (b # bs) = unat b * 256 ^ length bs + get_be bs"
  by (induction bs rule: rev_induct) (simp_all add: get_be_def algebra_simps)

lemma memcmp_get_be:
  "length xs = length ys \<Longrightarrow>
     (memcmp xs ys = 0 \<longleftrightarrow> get_be xs = get_be ys) \<and> (0 \<le> memcmp xs ys \<longleftrightarrow> get_be ys \<le> get_be xs)"
proof (induction xs ys rule: list_induct2)
  case (Cons x xs y ys)
  have lt: "unat a * 256 ^ length xs + get_be us < unat b * 256 ^ length xs + get_be vs"
    if "a < b" "length us = length xs" for a b :: byte and us vs
  proof -
    have "unat a * 256 ^ length xs + get_be us < (unat a + 1) * 256 ^ length xs"
      using get_be_bound [of us] that(2) by (simp add: algebra_simps)
    also have "\<dots> \<le> unat b * 256 ^ length xs"
      using that(1) by (intro mult_le_mono1) (simp add: word_less_nat_alt)
    finally show ?thesis by simp
  qed
  show ?case
  proof (cases x y rule: linorder_cases)
    case less
    then show ?thesis
      using Cons.hyps lt [of x y xs ys]
      by (auto simp: get_be_Cons)
  next
    case equal
    with Cons show ?thesis by (simp add: get_be_Cons)
  next
    case greater
    then show ?thesis
      using Cons.hyps lt [of y x ys xs]
      by (auto simp: get_be_Cons)
  qed
qed simp

end
