(* ===== verification/SDP_List.thy ===== *)
theory SDP_List
  imports Bluez_Prelude "HOL-Library.Multiset"
begin

section \<open>Singly linked lists of the SDP library\<close>

text \<open>
  The list routines of \<open>libs/src/sdp.c\<close> and \<open>libs/include/bluetooth/sdp_lib.h\<close>. A
  list \<open>sdp_list_t *\<close> is the list of its \<open>data\<close> fields, the null pointer is the
  empty list, and a comparison callback \<open>sdp_comp_func_t\<close> is a function to \<open>int\<close>.

  The contract between the list routines and their comparison callbacks is the locale
  \<open>sdp_comparator\<close>: on a domain the callback's sign agrees with an order on keys. The
  record attributes, the UUID patterns, the service repository and the socket index
  each interpret it.
\<close>

subsection \<open>Operations\<close>

fun sdp_list_append :: "'a list \<Rightarrow> 'a \<Rightarrow> 'a list" where
  "sdp_list_append [] d = [d]"
| "sdp_list_append (x # xs) d = x # sdp_list_append xs d"

fun sdp_list_remove :: "'a list \<Rightarrow> 'a \<Rightarrow> 'a list" where
  "sdp_list_remove [] d = []"
| "sdp_list_remove (x # xs) d = (if x = d then xs else x # sdp_list_remove xs d)"

fun sdp_list_insert_sorted :: "'a list \<Rightarrow> 'a \<Rightarrow> ('a \<Rightarrow> 'a \<Rightarrow> int) \<Rightarrow> 'a list" where
  "sdp_list_insert_sorted [] d f = [d]"
| "sdp_list_insert_sorted (x # xs) d f =
     (if f x d \<ge> 0 then d # x # xs else x # sdp_list_insert_sorted xs d f)"

fun sdp_list_len :: "'a list \<Rightarrow> nat" where
  "sdp_list_len [] = 0"
| "sdp_list_len (x # xs) = Suc (sdp_list_len xs)"

text \<open>The search returns the node; its callers only read the node's \<open>data\<close>.\<close>

fun sdp_list_find :: "'a list \<Rightarrow> 'b \<Rightarrow> ('a \<Rightarrow> 'b \<Rightarrow> int) \<Rightarrow> 'a option" where
  "sdp_list_find [] u f = None"
| "sdp_list_find (x # xs) u f = (if f x u = 0 then Some x else sdp_list_find xs u f)"

text \<open>The callback updates what its user pointer points to, which is threaded through.\<close>

fun sdp_list_foreach :: "'a list \<Rightarrow> ('a \<Rightarrow> 'u \<Rightarrow> 'u run) \<Rightarrow> 'u \<Rightarrow> 'u run" where
  "sdp_list_foreach [] f u = Ret u"
| "sdp_list_foreach (x # xs) f u = run_bind (f x u) (sdp_list_foreach xs f)"

subsection \<open>Facts that need no order\<close>

lemma sdp_list_append_eq [simp]: "sdp_list_append xs d = xs @ [d]"
  by (induction xs) auto

lemma sdp_list_len_eq [simp]: "sdp_list_len xs = length xs"
  by (induction xs) auto

lemma sdp_list_remove_eq: "sdp_list_remove xs d = remove1 d xs"
  by (induction xs) auto

lemma mset_insert_sorted [simp]: "mset (sdp_list_insert_sorted xs d f) = add_mset d (mset xs)"
  by (induction xs) auto

lemma set_insert_sorted [simp]: "set (sdp_list_insert_sorted xs d f) = insert d (set xs)"
  using mset_insert_sorted [of xs d f] by (metis set_mset_add_mset_insert set_mset_mset)

lemma length_insert_sorted [simp]: "length (sdp_list_insert_sorted xs d f) = Suc (length xs)"
  by (induction xs) auto

lemma distinct_insert_sorted [simp]:
  "distinct (sdp_list_insert_sorted xs d f) \<longleftrightarrow> d \<notin> set xs \<and> distinct xs"
  by (induction xs) auto

lemma set_sdp_list_remove: "set (sdp_list_remove xs d) \<subseteq> set xs"
  by (simp add: sdp_list_remove_eq set_remove1_subset)

lemma distinct_map_insert_sorted:
  "distinct (map k (sdp_list_insert_sorted xs d f)) \<longleftrightarrow> k d \<notin> k ` set xs \<and> distinct (map k xs)"
  by (induction xs) auto

lemma distinct_map_sdp_list_remove:
  "distinct (map k xs) \<Longrightarrow> distinct (map k (sdp_list_remove xs d))"
proof (induction xs)
  case (Cons x xs)
  then show ?case
    using set_sdp_list_remove [of xs d] by auto
qed simp

lemma insert_sorted_split:
  "\<exists>us vs. xs = us @ vs \<and> sdp_list_insert_sorted xs d f = us @ d # vs
     \<and> (\<forall>x \<in> set us. f x d < 0) \<and> (vs \<noteq> [] \<longrightarrow> 0 \<le> f (hd vs) d)"
proof (induction xs)
  case (Cons x xs)
  then obtain us vs where IH: "xs = us @ vs" "sdp_list_insert_sorted xs d f = us @ d # vs"
      "\<forall>x \<in> set us. f x d < 0" "vs \<noteq> [] \<longrightarrow> 0 \<le> f (hd vs) d"
    by blast
  show ?case
  proof (cases "f x d \<ge> 0")
    case True
    then show ?thesis
      by (intro exI [of _ "[]"] exI [of _ "x # xs"]) auto
  next
    case False
    with IH show ?thesis
      by (intro exI [of _ "x # us"] exI [of _ vs]) auto
  qed
qed simp

lemma find_Some_mem: "sdp_list_find xs u f = Some x \<Longrightarrow> x \<in> set xs \<and> f x u = 0"
  by (induction xs) (auto split: if_splits)

lemma find_None_iff: "sdp_list_find xs u f = None \<longleftrightarrow> (\<forall>x \<in> set xs. f x u \<noteq> 0)"
  by (induction xs) auto

lemma find_append:
  "sdp_list_find (xs @ ys) u f =
     (case sdp_list_find xs u f of None \<Rightarrow> sdp_list_find ys u f | Some x \<Rightarrow> Some x)"
  by (induction xs) auto

subsection \<open>The comparator contract\<close>

locale sdp_comparator =
  fixes cmp :: "'a \<Rightarrow> 'a \<Rightarrow> int"
    and key :: "'a \<Rightarrow> 'k :: linorder"
    and dom_ok :: "'a \<Rightarrow> bool"
  assumes cmp_eq: "dom_ok x \<Longrightarrow> dom_ok y \<Longrightarrow> cmp x y = 0 \<longleftrightarrow> key x = key y"
    and cmp_ge: "dom_ok x \<Longrightarrow> dom_ok y \<Longrightarrow> 0 \<le> cmp x y \<longleftrightarrow> key y \<le> key x"
begin

definition ordered :: "'a list \<Rightarrow> bool" where
  "ordered xs \<longleftrightarrow> (\<forall>x \<in> set xs. dom_ok x) \<and> sorted (map key xs)"

lemma ordered_Nil: "ordered []"
  by (simp add: ordered_def)

lemma ordered_insert:
  assumes "ordered xs" and "dom_ok d"
  shows "ordered (sdp_list_insert_sorted xs d cmp)"
proof -
  obtain us vs where s: "xs = us @ vs" "sdp_list_insert_sorted xs d cmp = us @ d # vs"
      "\<forall>x \<in> set us. cmp x d < 0" "vs \<noteq> [] \<longrightarrow> 0 \<le> cmp (hd vs) d"
    using insert_sorted_split [of xs d cmp] by blast
  have dom: "dom_ok x" if "x \<in> set xs" for x
    using assms(1) that by (simp add: ordered_def)
  have u: "key x \<le> key d" if "x \<in> set us" for x
    using that s dom [of x] cmp_ge [of x d] assms(2) by fastforce
  have sv: "sorted (map key vs)" and su: "sorted (map key us)"
    using assms(1) s(1) by (auto simp: ordered_def sorted_append)
  have v: "key d \<le> key x" if "x \<in> set vs" for x
  proof (cases vs)
    case Nil
    with that show ?thesis by simp
  next
    case (Cons w ws)
    then have "key d \<le> key w"
      using s dom [of w] cmp_ge [of w d] assms(2) by simp
    moreover have "key w \<le> key x"
      using sv Cons that by auto
    ultimately show ?thesis by order
  qed
  have "sorted (map key (us @ d # vs))"
    using u v su sv by (force simp: sorted_append)
  then show ?thesis
    using dom assms(2) s by (auto simp: ordered_def)
qed

lemma ordered_remove: "ordered xs \<Longrightarrow> ordered (sdp_list_remove xs d)"
  unfolding ordered_def sdp_list_remove_eq
  by (auto simp: sorted_map_remove1 dest: notin_set_remove1 set_mp [OF set_remove1_subset])

lemma find_mem:
  assumes "\<forall>x \<in> set xs. dom_ok x" and "dom_ok u" and "sdp_list_find xs u cmp = Some x"
  shows "x \<in> set xs \<and> key x = key u"
  using find_Some_mem [OF assms(3)] assms(1,2) cmp_eq by blast

lemma find_none:
  assumes "\<forall>x \<in> set xs. dom_ok x" and "dom_ok u"
  shows "sdp_list_find xs u cmp = None \<longleftrightarrow> key u \<notin> key ` set xs"
proof -
  have "cmp x u \<noteq> 0 \<longleftrightarrow> key u \<noteq> key x" if "x \<in> set xs" for x
    using that assms cmp_eq [of x u] by auto
  then show ?thesis
    unfolding find_None_iff image_iff by blast
qed

lemma find_insert:
  assumes "\<forall>x \<in> set xs. dom_ok x" and "dom_ok d" and "dom_ok u"
  shows "sdp_list_find (sdp_list_insert_sorted xs d cmp) u cmp
       = (if key u = key d then Some d else sdp_list_find xs u cmp)"
proof -
  obtain us vs where s: "xs = us @ vs" "sdp_list_insert_sorted xs d cmp = us @ d # vs"
      "\<forall>x \<in> set us. cmp x d < 0"
    using insert_sorted_split [of xs d cmp] by blast
  have "sdp_list_find us u cmp = None" if "key u = key d"
  proof -
    have "cmp x u \<noteq> 0" if "x \<in> set us" for x
      using that s assms \<open>key u = key d\<close> cmp_eq [of x u] cmp_eq [of x d] by fastforce
    then show ?thesis by (simp add: find_None_iff)
  qed
  moreover have "cmp d u = 0 \<longleftrightarrow> key u = key d"
    using assms(2,3) cmp_eq [of d u] by auto
  ultimately show ?thesis
    unfolding s(2) unfolding s(1) by (simp add: find_append split: option.split)
qed

lemma find_remove:
  assumes "\<forall>x \<in> set xs. dom_ok x" and "distinct (map key xs)" and "d \<in> set xs" and "dom_ok u"
  shows "sdp_list_find (sdp_list_remove xs d) u cmp
       = (if key u = key d then None else sdp_list_find xs u cmp)"
  using assms(1-3)
proof (induction xs)
  case (Cons x xs)
  have x: "cmp x u = 0 \<longleftrightarrow> key x = key u"
    using Cons.prems(1) assms(4) cmp_eq by simp
  show ?case
  proof (cases "x = d")
    case True
    have "sdp_list_find xs u cmp = None" if "key u = key d"
      using that True Cons.prems assms(4) find_none [of xs u] by auto
    with True x show ?thesis by auto
  next
    case False
    with Cons have IH: "sdp_list_find (sdp_list_remove xs d) u cmp
        = (if key u = key d then None else sdp_list_find xs u cmp)" by simp
    have "key x \<noteq> key d"
      using False Cons.prems by auto
    with False IH x show ?thesis by auto
  qed
qed simp

end

end
