(* ===== verification/SDP_UUID.thy ===== *)
theory SDP_UUID
  imports SDP_List
begin

section \<open>UUIDs of the SDP library\<close>

text \<open>
  The type \<open>uuid_t\<close> and the UUID routines of \<open>libs/src/sdp.c\<close>. The tag and the union
  of \<open>uuid_t\<close> are one datatype; \<open>UUID_NONE\<close> is the all-zero structure that
  \<open>memset\<close> leaves (type 0), which a record holds before its service class is known.
\<close>

subsection \<open>Data\<close>

abbreviation SDP_UUID16 :: byte where "SDP_UUID16 \<equiv> 0x19"
abbreviation SDP_UUID32 :: byte where "SDP_UUID32 \<equiv> 0x1A"
abbreviation SDP_UUID128 :: byte where "SDP_UUID128 \<equiv> 0x1C"

datatype sdp_uuid = UUID_NONE | UUID16 u16 | UUID32 u32 | UUID128 "byte list"

fun uuid_type :: "sdp_uuid \<Rightarrow> byte" where
  "uuid_type UUID_NONE = 0"
| "uuid_type (UUID16 _) = SDP_UUID16"
| "uuid_type (UUID32 _) = SDP_UUID32"
| "uuid_type (UUID128 _) = SDP_UUID128"

text \<open>A 128-bit UUID is an array of 16 bytes.\<close>

fun uuid_ok :: "sdp_uuid \<Rightarrow> bool" where
  "uuid_ok (UUID128 b) = (length b = 16)"
| "uuid_ok _ = True"

text \<open>
  The member \<open>value.uuid128\<close> of the union, whatever member was stored: the shorter
  members lie at its start in host order, over the zeros the create routines put there.
\<close>

fun uuid128_view :: "sdp_uuid \<Rightarrow> byte list" where
  "uuid128_view UUID_NONE = replicate 16 0"
| "uuid128_view (UUID16 w) = put_le 2 (unat w) @ replicate 14 0"
| "uuid128_view (UUID32 w) = put_le 4 (unat w) @ replicate 12 0"
| "uuid128_view (UUID128 b) = b"

definition bluetooth_base_uuid :: "byte list" where
  "bluetooth_base_uuid =
     [0x00, 0x00, 0x00, 0x00, 0x00, 0x00, 0x10, 0x00,
      0x80, 0x00, 0x00, 0x80, 0x5F, 0x9B, 0x34, 0xFB]"

definition SDP_IS_UUID :: "byte \<Rightarrow> bool" where
  "SDP_IS_UUID x \<longleftrightarrow> x = SDP_UUID16 \<or> x = SDP_UUID32 \<or> x = SDP_UUID128"

subsection \<open>Creation and comparison\<close>

definition sdp_uuid16_create :: "u16 \<Rightarrow> sdp_uuid" where
  "sdp_uuid16_create v = UUID16 v"

definition sdp_uuid32_create :: "u32 \<Rightarrow> sdp_uuid" where
  "sdp_uuid32_create v = UUID32 v"

text \<open>The source copies 16 bytes from the pointer it is given.\<close>

definition sdp_uuid128_create :: "byte list \<Rightarrow> sdp_uuid" where
  "sdp_uuid128_create p = UUID128 (take 16 p)"

definition sdp_uuid16_cmp :: "sdp_uuid \<Rightarrow> sdp_uuid \<Rightarrow> int" where
  "sdp_uuid16_cmp u1 u2 = memcmp (take 2 (uuid128_view u1)) (take 2 (uuid128_view u2))"

definition sdp_uuid128_cmp :: "sdp_uuid \<Rightarrow> sdp_uuid \<Rightarrow> int" where
  "sdp_uuid128_cmp u1 u2 = memcmp (uuid128_view u1) (uuid128_view u2)"

subsection \<open>Conversion\<close>

text \<open>
  The 16-bit value is added to bytes 2 and 3 of the base UUID: the source loads the two
  bytes as a host integer, adds the byte-swapped value with wrap-around and stores them.
\<close>

fun sdp_uuid16_to_uuid128 :: "u16 \<Rightarrow> sdp_uuid" where
  "sdp_uuid16_to_uuid128 v =
     (let data1 = of_nat (get_le (take 2 (drop 2 bluetooth_base_uuid))) + htons v
      in UUID128 (take 2 bluetooth_base_uuid @ put_le 2 (unat data1) @ drop 4 bluetooth_base_uuid))"

fun sdp_uuid32_to_uuid128 :: "u32 \<Rightarrow> sdp_uuid" where
  "sdp_uuid32_to_uuid128 v =
     (let data0 = of_nat (get_le (take 4 bluetooth_base_uuid)) + htonl v
      in UUID128 (put_le 4 (unat data0) @ drop 4 bluetooth_base_uuid))"

fun sdp_uuid_to_uuid128 :: "sdp_uuid \<Rightarrow> sdp_uuid" where
  "sdp_uuid_to_uuid128 (UUID128 b) = UUID128 b"
| "sdp_uuid_to_uuid128 (UUID32 v) = sdp_uuid32_to_uuid128 v"
| "sdp_uuid_to_uuid128 (UUID16 v) = sdp_uuid16_to_uuid128 v"
| "sdp_uuid_to_uuid128 UUID_NONE = UUID_NONE"

text \<open>The return value and the UUID as the call leaves it.\<close>

fun sdp_uuid128_to_uuid :: "sdp_uuid \<Rightarrow> int \<times> sdp_uuid" where
  "sdp_uuid128_to_uuid (UUID128 u) =
     (if drop 4 bluetooth_base_uuid \<noteq> drop 4 u then (0, UUID128 u)
      else let data = of_nat (get_be (take 4 u)) :: u32
           in if data \<le> 0xffff then (1, UUID16 (ucast data)) else (1, UUID32 data))"
| "sdp_uuid128_to_uuid u = (1, u)"

text \<open>The result is returned as \<open>int\<close>, so a 32-bit value is reread as signed.\<close>

fun sdp_uuid_to_proto :: "sdp_uuid \<Rightarrow> int" where
  "sdp_uuid_to_proto u =
     (case sdp_uuid128_to_uuid u of
        (r, UUID16 v) \<Rightarrow> if r \<noteq> 0 then uint v else 0
      | (r, UUID32 v) \<Rightarrow> if r \<noteq> 0 then sint v else 0
      | _ \<Rightarrow> 0)"

subsection \<open>Byte images\<close>

lemma length_base_uuid [simp]: "length bluetooth_base_uuid = 16"
  by (simp add: bluetooth_base_uuid_def)

lemma length_uuid128_view [simp]: "uuid_ok u \<Longrightarrow> length (uuid128_view u) = 16"
  by (cases u) auto

lemma base_uuid_prefix: "take 4 bluetooth_base_uuid = [0, 0, 0, 0]"
  by (simp add: bluetooth_base_uuid_def)

lemma get_le_put_le: "get_le (put_le n x) = x mod 256 ^ n"
  by (simp add: get_le_def put_le_def get_be_put_be)

lemma put_le_get_le: "length bs = n \<Longrightarrow> put_le n (get_le bs) = bs"
  using put_be_get_be [of "rev bs"] by (simp add: put_le_def get_le_def)

lemma get_le_less: "length bs = n \<Longrightarrow> get_le bs < 256 ^ n"
  using get_be_bound [of "rev bs"] by (simp add: get_le_def)

lemma uuid16_to_uuid128_bytes [enc_simps]:
  "sdp_uuid16_to_uuid128 v = UUID128 ([0, 0] @ put_be 2 (unat v) @ drop 4 bluetooth_base_uuid)"
proof -
  have "get_le (take 2 (drop 2 bluetooth_base_uuid)) = 0"
    by (simp add: bluetooth_base_uuid_def get_le_def get_be_def)
  moreover have "take 2 bluetooth_base_uuid = [0, 0]"
    by (simp add: bluetooth_base_uuid_def)
  ultimately show ?thesis
    by (simp add: put_le_htons)
qed

lemma uuid32_to_uuid128_bytes [enc_simps]:
  "sdp_uuid32_to_uuid128 v = UUID128 (put_be 4 (unat v) @ drop 4 bluetooth_base_uuid)"
proof -
  have "get_le (take 4 bluetooth_base_uuid) = 0"
    by (simp add: base_uuid_prefix get_le_def get_be_def)
  then show ?thesis
    by (simp add: put_le_htonl)
qed

declare sdp_uuid16_to_uuid128.simps [simp del] sdp_uuid32_to_uuid128.simps [simp del]

lemma uuid_ok_to_uuid128 [simp]: "uuid_ok u \<Longrightarrow> uuid_ok (sdp_uuid_to_uuid128 u)"
  by (cases u) (simp_all add: enc_simps)

subsection \<open>The comparison is an order\<close>

definition uuid_key :: "sdp_uuid \<Rightarrow> nat" where
  "uuid_key u = get_be (uuid128_view u)"

interpretation uuidc: sdp_comparator sdp_uuid128_cmp uuid_key uuid_ok
  by unfold_locales (simp_all add: sdp_uuid128_cmp_def uuid_key_def memcmp_get_be)

lemma uuid_key_inj:
  assumes "uuid_ok u" "uuid_ok v" "uuid_type u = SDP_UUID128" "uuid_type v = SDP_UUID128"
    and "uuid_key u = uuid_key v"
  shows "u = v"
  using assms get_be_inj by (cases u; cases v) (auto simp: uuid_key_def)

lemma uuid_type_to_uuid128:
  "u \<noteq> UUID_NONE \<Longrightarrow> uuid_type (sdp_uuid_to_uuid128 u) = SDP_UUID128"
  by (cases u) (simp_all add: enc_simps)

subsection \<open>Properties of the conversions\<close>

text \<open>
  The 128-bit form of a short UUID is \<open>value * 2^96 + base\<close>, the rule of the Bluetooth
  assigned numbers (no carry, since the base has zeros there).
\<close>

lemma uuid_key_short:
  "uuid_key (sdp_uuid_to_uuid128 (UUID16 v)) = unat v * 2 ^ 96 + get_be bluetooth_base_uuid"
  "uuid_key (sdp_uuid_to_uuid128 (UUID32 w)) = unat w * 2 ^ 96 + get_be bluetooth_base_uuid"
proof -
  have app: "get_be (xs @ ys) = get_be xs * 256 ^ length ys + get_be ys" for xs ys :: "byte list"
    by (induction xs) (simp_all add: get_be_Cons power_add algebra_simps)
  have base: "get_be bluetooth_base_uuid = get_be (drop 4 bluetooth_base_uuid)"
    by (simp add: bluetooth_base_uuid_def get_be_def)
  have v: "get_be (put_be 2 (unat v)) = unat v"
    using unsigned_less [of v] by (intro get_be_put_be_id) simp
  have w: "get_be (put_be 4 (unat w)) = unat w"
    using unsigned_less [of w] by (intro get_be_put_be_id) simp
  show "uuid_key (sdp_uuid_to_uuid128 (UUID16 v)) = unat v * 2 ^ 96 + get_be bluetooth_base_uuid"
    by (simp add: uuid_key_def enc_simps app get_be_Cons v base)
  show "uuid_key (sdp_uuid_to_uuid128 (UUID32 w)) = unat w * 2 ^ 96 + get_be bluetooth_base_uuid"
    by (simp add: uuid_key_def enc_simps app w base)
qed

lemma shorten_expand16: "sdp_uuid128_to_uuid (sdp_uuid_to_uuid128 (UUID16 v)) = (1, UUID16 v)"
proof -
  have b: "unat v < 256 ^ 2"
    using unsigned_less [of v] by simp
  have g: "get_be (take 4 ([0, 0] @ put_be 2 (unat v) @ drop 4 bluetooth_base_uuid)) = unat v"
    using b by (simp add: get_be_Cons get_be_put_be_id)
  have le: "(of_nat (unat v) :: u32) \<le> 0xffff"
    using b by (simp only: word_le_nat_alt unat_of_nat) simp
  have uc: "ucast (of_nat (unat v) :: u32) = v"
    using b by (simp only: word_unat_eq_iff unat_ucast_mod unat_of_nat) simp
  show ?thesis
    using le uc by (simp add: enc_simps g [simplified])
qed

lemma shorten_expand32:
  "sdp_uuid128_to_uuid (sdp_uuid_to_uuid128 (UUID32 v))
   = (1, if v \<le> 0xffff then UUID16 (ucast v) else UUID32 v)"
proof -
  have b: "unat v < 256 ^ 4"
    using unsigned_less [of v] by simp
  then show ?thesis
    by (simp add: enc_simps get_be_put_be_id)
qed

lemma expand_shorten:
  assumes "length b = 16" and "sdp_uuid128_to_uuid (UUID128 b) = (r, u)"
  shows "sdp_uuid_to_uuid128 u = UUID128 b"
proof (cases "drop 4 bluetooth_base_uuid = drop 4 b")
  case True
  let ?d = "of_nat (get_be (take 4 b)) :: u32"
  have d: "unat ?d = get_be (take 4 b)"
    using get_be_bound [of "take 4 b"] assms(1) by (simp add: unat_of_nat)
  have b4: "put_be 4 (unat ?d) = take 4 b"
    using put_be_get_be [of "take 4 b"] assms(1) by (simp add: d)
  show ?thesis
  proof (cases "?d \<le> 0xffff")
    case le: True
    then have "unat ?d < 256 ^ 2"
      by (simp add: word_le_nat_alt)
    then have "unat (ucast ?d :: u16) = unat ?d" and "unat ?d < 65536"
      by (simp_all add: unat_ucast_mod)
    then have "[0, 0] @ put_be 2 (unat (ucast ?d :: u16)) = put_be 4 (unat ?d)"
      by (simp only: put_be_4_small)
    with le True assms b4 show ?thesis
      by (auto simp: enc_simps simp flip: append_assoc)
  next
    case False
    with True assms b4 show ?thesis
      by (auto simp: enc_simps)
  qed
next
  case False
  with assms show ?thesis by auto
qed

text \<open>
  C8: shortening and expanding UUIDs are inverse. A 16-bit UUID survives expansion to 128
  bits and back; a 32-bit one comes back in its shortest form; and whatever
  \<open>sdp_uuid128_to_uuid\<close> makes of a 128-bit UUID, expanding it gives the UUID it had.
\<close>

theorem uuid_expand_shorten_inverse:
  assumes "length b = 16"
  shows "sdp_uuid128_to_uuid (sdp_uuid_to_uuid128 (UUID16 v)) = (1, UUID16 v)
    \<and> sdp_uuid128_to_uuid (sdp_uuid_to_uuid128 (UUID32 w))
         = (1, if w \<le> 0xffff then UUID16 (ucast w) else UUID32 w)
    \<and> sdp_uuid_to_uuid128 (snd (sdp_uuid128_to_uuid (UUID128 b))) = UUID128 b"
  using shorten_expand16 shorten_expand32 expand_shorten [OF assms] by (auto simp: prod_eq_iff)

theorem uuid_expand_shorten_inverse_witness:
  "sdp_uuid128_to_uuid (sdp_uuid_to_uuid128 (UUID16 0x1101)) = (1, UUID16 0x1101)
   \<and> sdp_uuid_to_uuid128 (snd (sdp_uuid128_to_uuid (UUID128 bluetooth_base_uuid))) = UUID128 bluetooth_base_uuid"
  using uuid_expand_shorten_inverse [of bluetooth_base_uuid "0x1101"] by (simp add: bluetooth_base_uuid_def)

end
