(* ===== verification/SDP_Data.thy ===== *)
theory SDP_Data
  imports SDP_UUID
begin

section \<open>SDP data elements and their PDU form\<close>

text \<open>
  The data element \<open>sdp_data_t\<close>, its allocation, and the generation of PDUs into a
  buffer \<open>sdp_buf_t\<close> (\<open>libs/src/sdp.c\<close>, \<open>libs/include/bluetooth/sdp.h\<close>).

  The \<open>next\<close> pointers of a chain are the list of its elements. The union \<open>val\<close> is the
  datatype \<open>sdp_val\<close>: all integer members up to 64 bits share \<open>VNum\<close>, the first
  eight bytes of the (zeroed) union in host order, so that reading a wider or narrower
  member than was stored gives what the overlay gives; \<open>VStr\<close> is the whole object
  \<open>val.str\<close> points to; the null pointer members are
  \<open>VNum 0\<close> (string) and \<open>VSeq []\<close> (sequence). Reading a member of another kind than
  the one stored (a string pointer as a number) is a \<open>Fault\<close>.
\<close>

subsection \<open>Type descriptors\<close>

abbreviation SDP_DATA_NIL :: byte where "SDP_DATA_NIL \<equiv> 0x00"
abbreviation SDP_UINT8 :: byte where "SDP_UINT8 \<equiv> 0x08"
abbreviation SDP_UINT16 :: byte where "SDP_UINT16 \<equiv> 0x09"
abbreviation SDP_UINT32 :: byte where "SDP_UINT32 \<equiv> 0x0A"
abbreviation SDP_UINT64 :: byte where "SDP_UINT64 \<equiv> 0x0B"
abbreviation SDP_UINT128 :: byte where "SDP_UINT128 \<equiv> 0x0C"
abbreviation SDP_INT8 :: byte where "SDP_INT8 \<equiv> 0x10"
abbreviation SDP_INT16 :: byte where "SDP_INT16 \<equiv> 0x11"
abbreviation SDP_INT32 :: byte where "SDP_INT32 \<equiv> 0x12"
abbreviation SDP_INT64 :: byte where "SDP_INT64 \<equiv> 0x13"
abbreviation SDP_INT128 :: byte where "SDP_INT128 \<equiv> 0x14"
abbreviation SDP_TEXT_STR8 :: byte where "SDP_TEXT_STR8 \<equiv> 0x25"
abbreviation SDP_TEXT_STR16 :: byte where "SDP_TEXT_STR16 \<equiv> 0x26"
abbreviation SDP_TEXT_STR32 :: byte where "SDP_TEXT_STR32 \<equiv> 0x27"
abbreviation SDP_BOOL :: byte where "SDP_BOOL \<equiv> 0x28"
abbreviation SDP_SEQ8 :: byte where "SDP_SEQ8 \<equiv> 0x35"
abbreviation SDP_SEQ16 :: byte where "SDP_SEQ16 \<equiv> 0x36"
abbreviation SDP_SEQ32 :: byte where "SDP_SEQ32 \<equiv> 0x37"
abbreviation SDP_ALT8 :: byte where "SDP_ALT8 \<equiv> 0x3D"
abbreviation SDP_ALT16 :: byte where "SDP_ALT16 \<equiv> 0x3E"
abbreviation SDP_ALT32 :: byte where "SDP_ALT32 \<equiv> 0x3F"
abbreviation SDP_URL_STR8 :: byte where "SDP_URL_STR8 \<equiv> 0x45"
abbreviation SDP_URL_STR16 :: byte where "SDP_URL_STR16 \<equiv> 0x46"
abbreviation SDP_URL_STR32 :: byte where "SDP_URL_STR32 \<equiv> 0x47"

definition is_seq_alt :: "byte \<Rightarrow> bool" where
  "is_seq_alt d \<longleftrightarrow> d \<in> {SDP_SEQ8, SDP_SEQ16, SDP_SEQ32, SDP_ALT8, SDP_ALT16, SDP_ALT32}"

definition is_str :: "byte \<Rightarrow> bool" where
  "is_str d \<longleftrightarrow> d \<in> {SDP_TEXT_STR8, SDP_TEXT_STR16, SDP_TEXT_STR32,
                     SDP_URL_STR8, SDP_URL_STR16, SDP_URL_STR32}"

text \<open>The number of bytes the size field of a descriptor takes.\<close>

definition len_width :: "byte \<Rightarrow> nat" where
  "len_width d =
     (if d \<in> {SDP_SEQ8, SDP_TEXT_STR8, SDP_URL_STR8, SDP_ALT8} then 1
      else if d \<in> {SDP_SEQ16, SDP_TEXT_STR16, SDP_URL_STR16, SDP_ALT16} then 2
      else if d \<in> {SDP_SEQ32, SDP_TEXT_STR32, SDP_URL_STR32, SDP_ALT32} then 4
      else 0)"

subsection \<open>Data elements\<close>

datatype sdp_data = Data (dtd: byte) (attrId: u16) (val: sdp_val) (unitSize: nat)
and sdp_val =
    VNum u64
  | VNum128 "byte list"
  | VUuid sdp_uuid
  | VStr "byte list"
  | VSeq "sdp_data list"

text \<open>
  \<open>sdp_data_alloc_with_length\<close>: \<open>value\<close> is what the caller's pointer points to,
  \<open>None\<close> the null pointer. The answer \<open>Ret None\<close> is the returned null pointer.
\<close>

definition num_arg :: "byte \<Rightarrow> nat \<Rightarrow> sdp_val option \<Rightarrow> sdp_data option run" where
  "num_arg t n value =
     (case value of Some (VNum w) \<Rightarrow> Ret (Some (Data t 0 (VNum (take_bit (8 * n) w)) (1 + n)))
      | _ \<Rightarrow> Fault)"

definition num128_arg :: "byte \<Rightarrow> sdp_val option \<Rightarrow> sdp_data option run" where
  "num128_arg t value =
     (case value of
        Some (VNum128 b) \<Rightarrow> if length b = 16 then Ret (Some (Data t 0 (VNum128 b) 17)) else Fault
      | _ \<Rightarrow> Fault)"

definition sdp_data_alloc_with_length ::
    "byte \<Rightarrow> sdp_val option \<Rightarrow> nat \<Rightarrow> sdp_data option run" where
  "sdp_data_alloc_with_length t value len =
     (if t = SDP_DATA_NIL then Ret (Some (Data t 0 (VNum 0) 1))
      else if t \<in> {SDP_UINT8, SDP_INT8, SDP_BOOL} then num_arg t 1 value
      else if t \<in> {SDP_UINT16, SDP_INT16} then num_arg t 2 value
      else if t \<in> {SDP_UINT32, SDP_INT32} then num_arg t 4 value
      else if t \<in> {SDP_INT64, SDP_UINT64} then num_arg t 8 value
      else if t \<in> {SDP_UINT128, SDP_INT128} then num128_arg t value
      else if t = SDP_UUID16 then
        (case value of Some (VNum w) \<Rightarrow>
             Ret (Some (Data t 0 (VUuid (sdp_uuid16_create (ucast w))) 3)) | _ \<Rightarrow> Fault)
      else if t = SDP_UUID32 then
        (case value of Some (VNum w) \<Rightarrow>
             Ret (Some (Data t 0 (VUuid (sdp_uuid32_create (ucast w))) 5)) | _ \<Rightarrow> Fault)
      else if t = SDP_UUID128 then
        (case value of Some (VNum128 b) \<Rightarrow>
             if length b = 16 then Ret (Some (Data t 0 (VUuid (sdp_uuid128_create b)) 17)) else Fault
           | _ \<Rightarrow> Fault)
      else if t \<in> {SDP_URL_STR8, SDP_URL_STR16, SDP_TEXT_STR8, SDP_TEXT_STR16} then
        (case value of
           None \<Rightarrow> Ret None
         | Some (VStr s) \<Rightarrow>
             if len \<le> 65535
             then if len \<le> length s then Ret (Some (Data t 0 (VStr (take len s)) (1 + len))) else Fault
             else Ret None
         | _ \<Rightarrow> Fault)
      else if t \<in> {SDP_URL_STR32, SDP_TEXT_STR32} then Ret (Some (Data t 0 (VNum 0) 1))
      else if is_seq_alt t then
        (case value of
           None \<Rightarrow> Ret (Some (Data t 0 (VSeq []) (1 + len_width t)))
         | Some (VSeq ds) \<Rightarrow>
             Ret (Some (Data t 0 (VSeq ds) (1 + len_width t + sum_list (map unitSize ds))))
         | _ \<Rightarrow> Fault)
      else Ret None)"

text \<open>
  \<open>sdp_data_alloc\<close> measures a string with \<open>strlen\<close>, which runs out of an object without a
  zero byte.
\<close>

definition strlen :: "byte list \<Rightarrow> nat run" where
  "strlen s = (if 0 \<in> set s then Ret (length (takeWhile (\<lambda>b. b \<noteq> 0) s)) else Fault)"

definition sdp_data_alloc :: "byte \<Rightarrow> sdp_val option \<Rightarrow> sdp_data option run" where
  "sdp_data_alloc t value =
     (if t \<in> {SDP_URL_STR8, SDP_URL_STR16, SDP_TEXT_STR8, SDP_TEXT_STR16}
      then (case value of
              None \<Rightarrow> Ret None
            | Some (VStr s) \<Rightarrow> run_bind (strlen s) (sdp_data_alloc_with_length t value)
            | _ \<Rightarrow> Fault)
      else sdp_data_alloc_with_length t value 0)"

text \<open>\<open>sdp_seq_append\<close>: the chain is the list.\<close>

definition sdp_seq_append :: "sdp_data list \<Rightarrow> sdp_data \<Rightarrow> sdp_data list" where
  "sdp_seq_append ds d = ds @ [d]"

text \<open>
  \<open>sdp_seq_alloc\<close>: the arrays \<open>dtds\<close> and \<open>values\<close> are one list of pairs. An entry whose
  descriptor is that of a sequence holds the finished element itself; the model takes
  it as the one element of a \<open>VSeq\<close>.
\<close>

fun seq_alloc_elems :: "(byte \<times> sdp_val option) list \<Rightarrow> sdp_data list option run" where
  "seq_alloc_elems [] = Ret (Some [])"
| "seq_alloc_elems ((t, value) # rest) =
     run_bind (if SDP_SEQ8 \<le> t \<and> t \<le> SDP_ALT32
               then (case value of Some (VSeq [d]) \<Rightarrow> Ret (Some d) | None \<Rightarrow> Ret None | _ \<Rightarrow> Fault)
               else sdp_data_alloc t value)
       (\<lambda>r. case r of
          None \<Rightarrow> Ret None
        | Some d \<Rightarrow> run_bind (seq_alloc_elems rest)
            (\<lambda>r'. Ret (map_option ((#) d) r')))"

definition sdp_seq_alloc :: "(byte \<times> sdp_val option) list \<Rightarrow> sdp_data option run" where
  "sdp_seq_alloc entries =
     run_bind (seq_alloc_elems entries)
       (\<lambda>r. case r of None \<Rightarrow> Ret None | Some ds \<Rightarrow> sdp_data_alloc SDP_SEQ8 (Some (VSeq ds)))"

text \<open>
  \<open>sdp_seq_alloc_with_length\<close>: the explicit lengths are a list as well. The final call
  reads \<open>length[i]\<close> with \<open>i = len\<close>, one entry past those of the elements.
\<close>

fun seq_alloc_elems_with_length ::
    "(byte \<times> sdp_val option) list \<Rightarrow> nat list \<Rightarrow> sdp_data list option run" where
  "seq_alloc_elems_with_length [] lens = Ret (Some [])"
| "seq_alloc_elems_with_length ((t, value) # rest) lens =
     run_bind (if SDP_SEQ8 \<le> t \<and> t \<le> SDP_ALT32
               then (case value of Some (VSeq [d]) \<Rightarrow> Ret (Some d) | None \<Rightarrow> Ret None | _ \<Rightarrow> Fault)
               else (case lens of [] \<Rightarrow> Fault | n # _ \<Rightarrow> sdp_data_alloc_with_length t value n))
       (\<lambda>r. case r of
          None \<Rightarrow> Ret None
        | Some d \<Rightarrow> run_bind (seq_alloc_elems_with_length rest (tl lens))
            (\<lambda>r'. Ret (map_option ((#) d) r')))"

definition sdp_seq_alloc_with_length ::
    "(byte \<times> sdp_val option) list \<Rightarrow> nat list \<Rightarrow> sdp_data option run" where
  "sdp_seq_alloc_with_length entries lens =
     run_bind (seq_alloc_elems_with_length entries lens)
       (\<lambda>r. case r of
          None \<Rightarrow> Ret None
        | Some ds \<Rightarrow>
            if length entries < length lens
            then sdp_data_alloc_with_length SDP_SEQ8 (Some (VSeq ds)) (lens ! length entries)
            else Fault)"

subsection \<open>PDU buffers\<close>

text \<open>
  \<open>sdp_buf_t\<close>: the allocated bytes (their number is \<open>buf_size\<close>) and how many are in
  use. A write outside the allocation is a \<open>Fault\<close>.
\<close>

record sdp_buf =
  buf_bytes :: "byte list"
  data_size :: nat

abbreviation buf_size :: "sdp_buf \<Rightarrow> nat" where
  "buf_size b \<equiv> length (buf_bytes b)"

definition buf_put :: "sdp_buf \<Rightarrow> nat \<Rightarrow> byte list \<Rightarrow> sdp_buf run" where
  "buf_put b off bs =
     (if off + length bs \<le> buf_size b
      then Ret (b\<lparr>buf_bytes := take off (buf_bytes b) @ bs @ drop (off + length bs) (buf_bytes b)\<rparr>)
      else Fault)"

definition buf_get :: "sdp_buf \<Rightarrow> nat \<Rightarrow> byte run" where
  "buf_get b off = (if off < buf_size b then Ret (buf_bytes b ! off) else Fault)"

definition buf_used :: "sdp_buf \<Rightarrow> byte list" where
  "buf_used b = take (data_size b) (buf_bytes b)"

definition sdp_set_seq_len :: "sdp_buf \<Rightarrow> nat \<Rightarrow> nat \<Rightarrow> sdp_buf run" where
  "sdp_set_seq_len b ptr len =
     run_bind (buf_get b ptr) (\<lambda>t.
       if t \<in> {SDP_SEQ8, SDP_ALT8, SDP_TEXT_STR8, SDP_URL_STR8}
       then buf_put b (ptr + 1) [of_nat len]
       else if t \<in> {SDP_SEQ16, SDP_ALT16, SDP_TEXT_STR16, SDP_URL_STR16}
       then buf_put b (ptr + 1) (put_be 2 len)
       else if t \<in> {SDP_SEQ32, SDP_ALT32, SDP_TEXT_STR32, SDP_URL_STR32}
       then buf_put b (ptr + 1) (put_be 4 len)
       else Ret b)"

definition sdp_set_data_type :: "sdp_buf \<Rightarrow> byte \<Rightarrow> (sdp_buf \<times> nat) run" where
  "sdp_set_data_type b t =
     run_bind (buf_put b (data_size b) [t]) (\<lambda>b1.
       Ret (b1\<lparr>data_size := data_size b1 + 1 + len_width t\<rparr>, 1 + len_width t))"

definition sdp_set_attrid :: "sdp_buf \<Rightarrow> u16 \<Rightarrow> sdp_buf run" where
  "sdp_set_attrid b attr =
     run_bind (buf_put b 0 [SDP_UINT16]) (\<lambda>b1.
     run_bind (buf_put b1 1 (put_be 2 (unat attr))) (\<lambda>b2.
       Ret (b2\<lparr>data_size := 3\<rparr>)))"

subsection \<open>PDU generation\<close>

text \<open>The 64-bit byte swap as the source computes it from two 32-bit swaps.\<close>

definition ntoh64 :: "u64 \<Rightarrow> u64" where
  "ntoh64 n = or (ucast (htonl (ucast (drop_bit 32 n)))) (push_bit 32 (ucast (htonl (ucast n))))"

definition ntoh128 :: "byte list \<Rightarrow> byte list" where
  "ntoh128 src = rev src"

text \<open>
  The source bytes of the scalar branches of \<open>sdp_gen_pdu\<close>; \<open>None\<close> is the null \<open>src\<close>
  of \<open>SDP_DATA_NIL\<close> and of unknown descriptors.
\<close>

definition scalar_src :: "byte \<Rightarrow> sdp_val \<Rightarrow> byte list option run" where
  "scalar_src t v =
     (if t \<in> {SDP_UINT8, SDP_INT8, SDP_BOOL} then
        (case v of VNum w \<Rightarrow> Ret (Some [ucast w]) | _ \<Rightarrow> Fault)
      else if t \<in> {SDP_UINT16, SDP_INT16} then
        (case v of VNum w \<Rightarrow> Ret (Some (put_le 2 (unat (htons (ucast w))))) | _ \<Rightarrow> Fault)
      else if t \<in> {SDP_UINT32, SDP_INT32} then
        (case v of VNum w \<Rightarrow> Ret (Some (put_le 4 (unat (htonl (ucast w))))) | _ \<Rightarrow> Fault)
      else if t \<in> {SDP_UINT64, SDP_INT64} then
        (case v of VNum w \<Rightarrow> Ret (Some (put_le 8 (unat (ntoh64 w)))) | _ \<Rightarrow> Fault)
      else if t \<in> {SDP_UINT128, SDP_INT128} then
        (case v of VNum128 b \<Rightarrow> Ret (Some (ntoh128 b)) | _ \<Rightarrow> Fault)
      else if t = SDP_UUID16 then
        (case v of VUuid (UUID16 w) \<Rightarrow> Ret (Some (put_le 2 (unat (htons w)))) | _ \<Rightarrow> Fault)
      else if t = SDP_UUID32 then
        (case v of VUuid (UUID32 w) \<Rightarrow> Ret (Some (put_le 4 (unat (htonl w)))) | _ \<Rightarrow> Fault)
      else if t = SDP_UUID128 then
        (case v of VUuid (UUID128 b) \<Rightarrow> Ret (Some b) | _ \<Rightarrow> Fault)
      else Ret None)"

text \<open>
  The string branch: \<open>data_size = d->unitSize - 1\<close> in 32-bit arithmetic, and the \<open>memcpy\<close> of \<open>data_size\<close> bytes from \<open>val.str\<close>, nothing when it is null.
\<close>

definition str_size :: "nat \<Rightarrow> nat" where
  "str_size us = (if us = 0 then 4294967295 else us - 1)"

definition str_src :: "sdp_val \<Rightarrow> nat \<Rightarrow> byte list option run" where
  "str_src v n =
     (case v of
        VStr s \<Rightarrow> if n \<le> length s then Ret (Some (take n s)) else Fault
      | VNum w \<Rightarrow> if w = 0 then Ret None else Fault
      | _ \<Rightarrow> Fault)"

definition buf_append :: "sdp_buf \<Rightarrow> byte list \<Rightarrow> sdp_buf run" where
  "buf_append b bs =
     run_bind (buf_put b (data_size b) bs) (\<lambda>b1. Ret (b1\<lparr>data_size := data_size b1 + length bs\<rparr>))"

fun sdp_gen_pdu :: "sdp_buf \<Rightarrow> sdp_data \<Rightarrow> (sdp_buf \<times> nat) run"
and get_data_size :: "sdp_buf \<Rightarrow> sdp_data list \<Rightarrow> (sdp_buf \<times> nat) run" where
  "sdp_gen_pdu b (Data t aid v us) =
     run_bind (sdp_set_data_type b t) (\<lambda>(b1, pdu_size).
       if is_str t then
         run_bind (sdp_set_seq_len b1 (data_size b) (str_size us)) (\<lambda>b2.
         run_bind (str_src v (str_size us)) (\<lambda>src.
         run_bind (case src of None \<Rightarrow> Ret b2 | Some s \<Rightarrow> buf_append b2 s) (\<lambda>b3.
           Ret (b3, pdu_size + str_size us))))
       else if is_seq_alt t then
         (case v of
            VSeq ds \<Rightarrow>
              run_bind (get_data_size b1 ds) (\<lambda>(b2, n).
              run_bind (sdp_set_seq_len b2 (data_size b) n) (\<lambda>b3.
                Ret (b3, pdu_size + n)))
          | _ \<Rightarrow> Fault)
       else
         run_bind (scalar_src t v) (\<lambda>src.
           case src of
             None \<Rightarrow> Ret (b1, pdu_size)
           | Some s \<Rightarrow> run_bind (buf_append b1 s) (\<lambda>b2. Ret (b2, pdu_size + length s))))"
| "get_data_size b [] = Ret (b, 0)"
| "get_data_size b (d # ds) =
     run_bind (sdp_gen_pdu b d) (\<lambda>(b1, n).
     run_bind (get_data_size b1 ds) (\<lambda>(b2, m). Ret (b2, n + m)))"

subsection \<open>The encoding as a function\<close>

text \<open>
  The contract of \<open>sdp_gen_pdu\<close>: the bytes of a data element, defined by recursion on the
  element and without a buffer. \<open>gen_ok\<close> says that every union is read at the member
  that was stored and that the recorded size of a string lies within its allocation.
\<close>

definition scalar_bytes :: "byte \<Rightarrow> sdp_val \<Rightarrow> byte list" where
  "scalar_bytes t v =
     (if t \<in> {SDP_UINT8, SDP_INT8, SDP_BOOL} then
        (case v of VNum w \<Rightarrow> put_be 1 (unat w) | _ \<Rightarrow> [])
      else if t \<in> {SDP_UINT16, SDP_INT16} then
        (case v of VNum w \<Rightarrow> put_be 2 (unat w) | _ \<Rightarrow> [])
      else if t \<in> {SDP_UINT32, SDP_INT32} then
        (case v of VNum w \<Rightarrow> put_be 4 (unat w) | _ \<Rightarrow> [])
      else if t \<in> {SDP_UINT64, SDP_INT64} then
        (case v of VNum w \<Rightarrow> put_be 8 (unat w) | _ \<Rightarrow> [])
      else if t \<in> {SDP_UINT128, SDP_INT128} then
        (case v of VNum128 b \<Rightarrow> rev b | _ \<Rightarrow> [])
      else if t = SDP_UUID16 then
        (case v of VUuid (UUID16 w) \<Rightarrow> put_be 2 (unat w) | _ \<Rightarrow> [])
      else if t = SDP_UUID32 then
        (case v of VUuid (UUID32 w) \<Rightarrow> put_be 4 (unat w) | _ \<Rightarrow> [])
      else if t = SDP_UUID128 then
        (case v of VUuid (UUID128 b) \<Rightarrow> b | _ \<Rightarrow> [])
      else [])"

fun sdp_enc :: "sdp_data \<Rightarrow> byte list"
and sdp_enc_list :: "sdp_data list \<Rightarrow> byte list" where
  "sdp_enc (Data t aid v us) =
     t # (if is_str t then
            (case v of VStr s \<Rightarrow> put_be (len_width t) (us - 1) @ take (us - 1) s
                     | _ \<Rightarrow> put_be (len_width t) 0)
          else if is_seq_alt t then
            (case v of
               VSeq ds \<Rightarrow> put_be (len_width t) (length (sdp_enc_list ds)) @ sdp_enc_list ds
             | _ \<Rightarrow> [])
          else scalar_bytes t v)"
| "sdp_enc_list [] = []"
| "sdp_enc_list (d # ds) = sdp_enc d @ sdp_enc_list ds"

fun gen_ok :: "sdp_data \<Rightarrow> bool"
and gen_ok_list :: "sdp_data list \<Rightarrow> bool" where
  "gen_ok (Data t aid v us) =
     (if is_str t then
        (case v of VStr s \<Rightarrow> 1 \<le> us \<and> us \<le> 1 + length s | VNum w \<Rightarrow> w = 0 \<and> us = 1 | _ \<Rightarrow> False)
      else if is_seq_alt t then (case v of VSeq ds \<Rightarrow> gen_ok_list ds | _ \<Rightarrow> False)
      else scalar_src t v \<noteq> Fault)"
| "gen_ok_list [] = True"
| "gen_ok_list (d # ds) = (gen_ok d \<and> gen_ok_list ds)"

text \<open>Bytes placed at the end of the used part, and whether there is room for them.\<close>

definition buf_splice :: "sdp_buf \<Rightarrow> byte list \<Rightarrow> sdp_buf" where
  "buf_splice b bs =
     b\<lparr>buf_bytes := take (data_size b) (buf_bytes b) @ bs @ drop (data_size b + length bs) (buf_bytes b),
       data_size := data_size b + length bs\<rparr>"

definition fits :: "sdp_buf \<Rightarrow> byte list \<Rightarrow> bool" where
  "fits b bs \<longleftrightarrow> data_size b + length bs \<le> buf_size b"

subsection \<open>Writing a PDU in place refines the encoding\<close>

lemma unat_join32: "unat (or (ucast (a :: u32)) (push_bit 32 (ucast (b :: u32))) :: u64) = unat b * 256 ^ 4 + unat a"
proof -
  have 1: "and (ucast a :: u64) (push_bit 32 (ucast b)) = 0"
    by (rule bit_word_eqI) (auto simp: bit_simps dest: bit_imp_le_length)
  have b: "unat a < 4294967296" "unat b < 4294967296"
    using unsigned_less [of a] unsigned_less [of b] by simp_all
  have "or (ucast a) (push_bit 32 (ucast b)) = (ucast a + push_bit 32 (ucast b) :: u64)"
    using disjunctive_add_eq_or [OF 1] by simp
  also have "\<dots> = of_nat (unat a + unat b * 256 ^ 4)"
    by (simp add: push_bit_eq_mult)
  finally show ?thesis using b by (simp add: unat_of_nat del: of_nat_add of_nat_mult)
qed

lemma put_le_ntoh64: "put_le 8 (unat (ntoh64 n)) = put_be 8 (unat n)"
proof -
  let ?h = "ucast (drop_bit 32 n) :: u32" and ?l = "ucast n :: u32"
  have u: "unat (ntoh64 n) = unat (htonl ?l) * 256 ^ 4 + unat (htonl ?h)"
    by (simp only: ntoh64_def unat_join32)
  have s: "unat (htonl ?h) < 256 ^ 4"
    using unsigned_less [of "htonl ?h"] by simp
  have "put_be (4 + 4) (unat (ntoh64 n)) = put_be 4 (unat (htonl ?l)) @ put_be 4 (unat (htonl ?h))"
    unfolding put_be_add u using s
    by (intro arg_cong2 [where f = "(@)"] put_be_cong) simp_all
  then have "put_le 8 (unat (ntoh64 n)) = put_le 4 (unat (htonl ?h)) @ put_le 4 (unat (htonl ?l))"
    by (simp add: put_le_def)
  also have "\<dots> = put_be 4 (unat ?h) @ put_be 4 (unat ?l)"
    by (simp only: put_le_htonl)
  also have "\<dots> = put_be 4 (unat n div 256 ^ 4) @ put_be 4 (unat n)"
    by (intro arg_cong2 [where f = "(@)"] put_be_cong)
      (simp_all add: unat_ucast_mod drop_bit_eq_div unat_div_distrib)
  also have "\<dots> = put_be 8 (unat n)"
    using put_be_add [of 4 4 "unat n"] by simp
  finally show ?thesis .
qed

text \<open>A branch of the source and the bytes the encoding has there.\<close>

definition src_rel :: "byte list option run \<Rightarrow> byte list \<Rightarrow> bool" where
  "src_rel s l \<longleftrightarrow> s = Fault \<or> s = Ret None \<and> l = [] \<or> s = Ret (Some l)"

lemma src_rel_if:
  "src_rel a a' \<Longrightarrow> src_rel b b' \<Longrightarrow> src_rel (if c then a else b) (if c then a' else b')"
  by simp

lemma scalar_src_bytes: "src_rel (scalar_src t v) (scalar_bytes t v)"
proof -
  have 1: "put_be 1 (unat w) = [ucast w]" for w :: u64
    by simp
  have 2: "put_be 2 (unat (ucast w :: u16)) = put_be 2 (unat w)" for w :: u64
    by (rule put_be_cong) (simp add: unat_ucast_mod)
  have 4: "put_be 4 (unat (ucast w :: u32)) = put_be 4 (unat w)" for w :: u64
    by (rule put_be_cong) (simp add: unat_ucast_mod)
  show ?thesis
    unfolding scalar_src_def scalar_bytes_def put_le_htons put_le_htonl put_le_ntoh64 1 2 4
    by (intro src_rel_if) (simp_all add: src_rel_def ntoh128_def split: sdp_val.split sdp_uuid.split)
qed

lemma buf_append_eq: "buf_append b bs = (if fits b bs then Ret (buf_splice b bs) else Fault)"
  by (simp add: buf_append_def buf_put_def fits_def buf_splice_def)

lemma splice_data_size [simp]: "data_size (buf_splice b bs) = data_size b + length bs"
  by (simp add: buf_splice_def)

lemma splice_buf_size [simp]: "fits b bs \<Longrightarrow> buf_size (buf_splice b bs) = buf_size b"
  by (simp add: buf_splice_def fits_def)

lemma splice_Nil: "buf_splice b [] = b"
  by (simp add: buf_splice_def)

lemma fits_append: "fits b (xs @ ys) \<longleftrightarrow> fits b xs \<and> fits (buf_splice b xs) ys"
  by (auto simp: fits_def buf_splice_def)

lemma splice_append: "fits b xs \<Longrightarrow> buf_splice (buf_splice b xs) ys = buf_splice b (xs @ ys)"
  by (simp add: buf_splice_def fits_def add.commute add.left_commute)

lemma splice_patch:
  "fits b (xs @ old @ ys) \<Longrightarrow> length new = length old \<Longrightarrow>
   buf_put (buf_splice b (xs @ old @ ys)) (data_size b + length xs) new
     = Ret (buf_splice b (xs @ new @ ys))"
  by (simp add: buf_put_def buf_splice_def fits_def)

lemma len_width_scalar: "\<not> is_str t \<Longrightarrow> \<not> is_seq_alt t \<Longrightarrow> len_width t = 0"
  by (simp add: len_width_def is_str_def is_seq_alt_def)

lemma set_data_type_room:
  assumes "data_size b + 1 + len_width t \<le> buf_size b"
  obtains old where "length old = len_width t"
    and "sdp_set_data_type b t = Ret (buf_splice b (t # old), 1 + len_width t)"
proof
  let ?old = "take (len_width t) (drop (data_size b + 1) (buf_bytes b))"
  show "length ?old = len_width t" using assms by simp
  have "drop (Suc (data_size b)) (buf_bytes b) = ?old @ drop (data_size b + 1 + len_width t) (buf_bytes b)"
    using append_take_drop_id [of "len_width t" "drop (data_size b + 1) (buf_bytes b)"]
    by (simp add: add.commute)
  then show "sdp_set_data_type b t = Ret (buf_splice b (t # ?old), 1 + len_width t)"
    using assms by (simp add: sdp_set_data_type_def buf_put_def buf_splice_def min_def)
qed

lemma set_data_type_tight:
  assumes "data_size b < buf_size b"
  obtains b1 where "sdp_set_data_type b t = Ret (b1, 1 + len_width t)"
    and "data_size b1 = data_size b + 1 + len_width t" and "buf_size b1 = buf_size b"
    and "buf_bytes b1 ! data_size b = t"
  using assms by (auto simp: sdp_set_data_type_def buf_put_def nth_append)

lemma set_data_type_full: "buf_size b \<le> data_size b \<Longrightarrow> sdp_set_data_type b t = Fault"
  by (simp add: sdp_set_data_type_def buf_put_def)

lemma set_seq_len_eq:
  "sdp_set_seq_len b p n = run_bind (buf_get b p) (\<lambda>t.
     if len_width t = 0 then Ret b else buf_put b (p + 1) (put_be (len_width t) n))"
proof -
  have sets: "{SDP_SEQ8, SDP_ALT8, SDP_TEXT_STR8, SDP_URL_STR8} = {SDP_SEQ8, SDP_TEXT_STR8, SDP_URL_STR8, SDP_ALT8}"
    "{SDP_SEQ16, SDP_ALT16, SDP_TEXT_STR16, SDP_URL_STR16} = {SDP_SEQ16, SDP_TEXT_STR16, SDP_URL_STR16, SDP_ALT16}"
    "{SDP_SEQ32, SDP_ALT32, SDP_TEXT_STR32, SDP_URL_STR32} = {SDP_SEQ32, SDP_TEXT_STR32, SDP_URL_STR32, SDP_ALT32}"
    by (simp_all only: insert_commute)
  show ?thesis
    unfolding sdp_set_seq_len_def len_width_def sets
    by (rule run_bind_cong) (simp_all split: if_split del: insert_iff)
qed

lemma set_seq_len_room:
  assumes "fits b (t # old @ body)" and "length old = len_width t"
  shows "sdp_set_seq_len (buf_splice b (t # old @ body)) (data_size b) n
           = Ret (buf_splice b (t # put_be (len_width t) n @ body))"
proof -
  have "buf_get (buf_splice b (t # old @ body)) (data_size b) = Ret t"
    using assms by (simp add: buf_get_def buf_splice_def fits_def nth_append)
  then show ?thesis
    using splice_patch [of b "[t]" old body "put_be (len_width t) n"] assms
    by (auto simp: set_seq_len_eq)
qed

lemma set_seq_len_tight:
  "buf_bytes b ! p = t \<Longrightarrow> p < buf_size b \<Longrightarrow> \<not> p + 1 + len_width t \<le> buf_size b \<Longrightarrow>
   sdp_set_seq_len b p n = Fault"
  by (auto simp: set_seq_len_eq buf_get_def buf_put_def)

text \<open>A size field that is patched after the body: the pattern of the string and sequence branches.\<close>

lemma sized_refines:
  assumes body: "\<And>b1. body b1 = (if bs = [] then Ret b1 else if fits b1 bs then Ret (buf_splice b1 bs) else Fault)"
  shows "run_bind (sdp_set_data_type b t) (\<lambda>(b1, n). run_bind (body b1) (\<lambda>b2.
            run_bind (sdp_set_seq_len b2 (data_size b) m) (\<lambda>b3. Ret (b3, n + k))))
       = (if fits b (t # put_be (len_width t) m @ bs)
          then Ret (buf_splice b (t # put_be (len_width t) m @ bs), 1 + len_width t + k) else Fault)"
proof (cases "data_size b + 1 + len_width t \<le> buf_size b")
  case True
  then obtain old where old: "length old = len_width t"
    "sdp_set_data_type b t = Ret (buf_splice b (t # old), 1 + len_width t)"
    by (rule set_data_type_room)
  have f: "fits b (t # old)" using True old by (simp add: fits_def)
  have eq: "fits b (t # put_be (len_width t) m @ bs) = fits b (t # old @ bs)"
    using old by (simp add: fits_def)
  show ?thesis
    unfolding eq using f old body set_seq_len_room [of b t old bs m] set_seq_len_room [of b t old "[]" m]
      fits_append [of b "t # old" bs] splice_append [OF f, of bs]
    by (cases "bs = []") auto
next
  case False
  then have nf: "\<not> fits b (t # put_be (len_width t) m @ bs)" by (simp add: fits_def)
  show ?thesis
  proof (cases "data_size b < buf_size b")
    case True
    then obtain b1 where b1: "sdp_set_data_type b t = Ret (b1, 1 + len_width t)"
      "data_size b1 = data_size b + 1 + len_width t" "buf_size b1 = buf_size b"
      "buf_bytes b1 ! data_size b = t"
      by (rule set_data_type_tight)
    moreover have "\<not> fits b1 bs" using b1 False by (simp add: fits_def)
    moreover have "sdp_set_seq_len b1 (data_size b) m = Fault"
      using b1 True False by (intro set_seq_len_tight) auto
    ultimately show ?thesis using nf body by simp
  next
    case full: False
    then show ?thesis using nf by (simp add: set_data_type_full)
  qed
qed

lemma str_refines:
  "run_bind (sdp_set_data_type b t) (\<lambda>(b1, n). run_bind (sdp_set_seq_len b1 (data_size b) m) (\<lambda>b2.
     run_bind (buf_append b2 s) (\<lambda>b3. Ret (b3, n + k))))
   = (if fits b (t # put_be (len_width t) m @ s)
      then Ret (buf_splice b (t # put_be (len_width t) m @ s), 1 + len_width t + k) else Fault)"
proof -
  have "run_bind (sdp_set_data_type b t) (\<lambda>(b1, n). run_bind (sdp_set_seq_len b1 (data_size b) m) (\<lambda>b2. Ret (b2, n)))
    = (if fits b (t # put_be (len_width t) m)
       then Ret (buf_splice b (t # put_be (len_width t) m), 1 + len_width t) else Fault)"
    using sized_refines [of Ret "[]" b t m 0] by (simp cong: run_bind_cong)
  then have "run_bind (run_bind (sdp_set_data_type b t) (\<lambda>(b1, n).
        run_bind (sdp_set_seq_len b1 (data_size b) m) (\<lambda>b2. Ret (b2, n))))
      (\<lambda>(b2, n). run_bind (buf_append b2 s) (\<lambda>b3. Ret (b3, n + k)))
    = (if fits b (t # put_be (len_width t) m @ s)
       then Ret (buf_splice b (t # put_be (len_width t) m @ s), 1 + len_width t + k) else Fault)"
    using fits_append [of b "t # put_be (len_width t) m" s]
      splice_append [of b "t # put_be (len_width t) m" s]
    by (simp add: buf_append_eq)
  then show ?thesis
    by (simp add: run_bind_assoc split_def)
qed

lemma sdp_enc_not_Nil [simp]: "sdp_enc d \<noteq> []"
  by (cases d) simp

lemma sdp_enc_list_eq_Nil [simp]: "sdp_enc_list ds = [] \<longleftrightarrow> ds = []"
  by (cases ds) simp_all

lemma scalar_refines:
  assumes "\<not> is_str t" and "\<not> is_seq_alt t" and "scalar_src t v \<noteq> Fault"
  shows "sdp_gen_pdu b (Data t aid v us)
    = (if fits b (t # scalar_bytes t v)
       then Ret (buf_splice b (t # scalar_bytes t v), 1 + length (scalar_bytes t v)) else Fault)"
proof -
  have "sdp_set_data_type b t = (if fits b [t] then Ret (buf_splice b [t], 1) else Fault)"
    using len_width_scalar [OF assms(1,2)]
    by (auto simp: sdp_set_data_type_def buf_put_def fits_def buf_splice_def)
  then show ?thesis
    using assms scalar_src_bytes [of t v] fits_append [of b "[t]" "scalar_bytes t v"]
      splice_append [of b "[t]" "scalar_bytes t v"]
    by (auto simp: src_rel_def buf_append_eq)
qed

lemma gen_pdu_refines:
  shows "gen_ok d \<Longrightarrow> sdp_gen_pdu b d
      = (if fits b (sdp_enc d) then Ret (buf_splice b (sdp_enc d), length (sdp_enc d)) else Fault)"
    and "gen_ok_list ds \<Longrightarrow> get_data_size b ds
      = (if ds = [] then Ret (b, 0) else if fits b (sdp_enc_list ds)
         then Ret (buf_splice b (sdp_enc_list ds), length (sdp_enc_list ds)) else Fault)"
proof (induction d and ds arbitrary: b and b rule: sdp_enc_sdp_enc_list.induct)
  case (1 t aid v us)
  consider (str) "is_str t" | (seq) "\<not> is_str t" "is_seq_alt t" | (scal) "\<not> is_str t" "\<not> is_seq_alt t"
    by blast
  then show ?case
  proof cases
    case str
    then have "(\<exists>s. v = VStr s \<and> 1 \<le> us \<and> us - 1 \<le> length s) \<or> v = VNum 0 \<and> us = 1"
      using "1.prems" by (auto split: sdp_val.splits)
    then consider s k where "v = VStr s" "us = Suc k" "k \<le> length s" | "v = VNum 0" "us = 1"
      by (metis Suc_eq_plus1_left le_add_diff_inverse)
    then show ?thesis
    proof cases
      case 1
      then show ?thesis
        using str str_refines [of b t k "take k s" k]
        by (simp add: str_size_def str_src_def min_absorb2)
    next
      case 2
      then show ?thesis
        using str sized_refines [of Ret "[]" b t 0 0]
        by (simp add: str_size_def str_src_def cong: run_bind_cong)
    qed
  next
    case seq
    then obtain ds where ds: "v = VSeq ds" "gen_ok_list ds"
      using "1.prems" by (auto split: sdp_val.splits)
    let ?body = "sdp_enc_list ds"
    have IH: "get_data_size b1 ds = run_bind (if ?body = [] then Ret b1 else if fits b1 ?body
        then Ret (buf_splice b1 ?body) else Fault) (\<lambda>b2. Ret (b2, length ?body))" for b1
      using "1.IH" [of ds b1] seq ds by simp
    show ?thesis
      using seq ds sized_refines [of "\<lambda>b1. if ?body = [] then Ret b1 else if fits b1 ?body
        then Ret (buf_splice b1 ?body) else Fault" ?body b t "length ?body" "length ?body"]
      by (simp add: IH run_bind_assoc del: sdp_enc_list_eq_Nil)
  next
    case scal
    then show ?thesis using "1.prems" scalar_refines [of t v b aid us] by simp
  qed
next
  case (3 d ds)
  show ?case
    using 3 fits_append [of b "sdp_enc d" "sdp_enc_list ds"]
      splice_append [of b "sdp_enc d" "sdp_enc_list ds"]
    by (cases "ds = []") auto
qed simp

subsection \<open>Allocation gives elements that can be generated\<close>

lemma alloc_gen_ok:
  assumes "sdp_data_alloc_with_length t value len = Ret (Some d)"
    and "\<forall>ds. value = Some (VSeq ds) \<longrightarrow> gen_ok_list ds"
  shows "gen_ok d"
proof -
  define P where "P = (\<lambda>r. \<forall>d. r = Ret (Some d) \<longrightarrow> gen_ok d)"
  have P_if: "(c \<Longrightarrow> P x) \<Longrightarrow> P y \<Longrightarrow> P (if c then x else y)" for c x y by simp
  have P_simps: "P Fault" "P (Ret None)" "P (Ret (Some d)) = gen_ok d" for d by (simp_all add: P_def)
  have "P (sdp_data_alloc_with_length t value len)"
    unfolding sdp_data_alloc_with_length_def num_arg_def num128_arg_def
    using assms(2)
    by (intro P_if)
      (auto simp: P_simps is_str_def is_seq_alt_def scalar_src_def sdp_uuid16_create_def
        sdp_uuid32_create_def sdp_uuid128_create_def split: option.split sdp_val.split)
  with assms(1) show ?thesis by (simp add: P_def)
qed

subsection \<open>Properties\<close>

text \<open>
  C1: writing a data element in place, with size fields patched after the nested elements
  are out, leaves exactly the encoding \<open>sdp_enc\<close> of the element behind the bytes already
  in the buffer, touches nothing else and returns its length; and it writes outside the
  buffer exactly when the encoding does not fit.
\<close>

theorem gen_pdu_exact:
  assumes "gen_ok d"
  shows "sdp_gen_pdu b d =
     (if data_size b + length (sdp_enc d) \<le> buf_size b
      then Ret (b\<lparr>buf_bytes := take (data_size b) (buf_bytes b) @ sdp_enc d
                                @ drop (data_size b + length (sdp_enc d)) (buf_bytes b),
                  data_size := data_size b + length (sdp_enc d)\<rparr>, length (sdp_enc d))
      else Fault)"
  using gen_pdu_refines(1) [OF assms, of b] by (simp add: fits_def buf_splice_def)

theorem gen_pdu_exact_witness:
  "sdp_gen_pdu \<lparr>buf_bytes = [1, 0, 0, 0, 0, 0, 9], data_size = 1\<rparr>
      (Data SDP_SEQ8 0 (VSeq [Data SDP_UUID16 0 (VUuid (UUID16 0x1101)) 3]) 5)
     = Ret (\<lparr>buf_bytes = [1, SDP_SEQ8, 3, SDP_UUID16, 0x11, 0x01, 9], data_size = 6\<rparr>, 5)"
  using gen_pdu_exact [of "Data SDP_SEQ8 0 (VSeq [Data SDP_UUID16 0 (VUuid (UUID16 0x1101)) 3]) 5"
      "\<lparr>buf_bytes = [1, 0, 0, 0, 0, 0, 9], data_size = 1\<rparr>"]
  by (simp add: is_str_def is_seq_alt_def scalar_src_def scalar_bytes_def len_width_def put_be_small
      del: sdp_gen_pdu.simps)

text \<open>
  C28: what \<open>sdp_data_alloc\<close> returns can be generated: the element stores the union member
  its descriptor promises (given that of nested elements), and \<open>sdp_gen_pdu\<close> puts it into
  every buffer with room for its encoding.
\<close>

theorem data_alloc_generates:
  assumes "sdp_data_alloc t value = Ret (Some d)"
    and "\<forall>ds. value = Some (VSeq ds) \<longrightarrow> gen_ok_list ds"
    and "data_size b + length (sdp_enc d) \<le> buf_size b"
  shows "gen_ok d \<and> (\<exists>b'. sdp_gen_pdu b d = Ret (b', length (sdp_enc d)))"
proof -
  from assms(1) obtain len where "sdp_data_alloc_with_length t value len = Ret (Some d)"
    by (auto simp: sdp_data_alloc_def split: if_splits option.splits sdp_val.splits)
  then have "gen_ok d" using alloc_gen_ok assms(2) by blast
  with gen_pdu_refines(1) [of d b] assms(3) show ?thesis by (simp add: fits_def)
qed

theorem data_alloc_generates_witness:
  "gen_ok (Data SDP_UINT16 0 (VNum 0x102) 3)
   \<and> (\<exists>b'. sdp_gen_pdu \<lparr>buf_bytes = [0, 0, 0], data_size = 0\<rparr> (Data SDP_UINT16 0 (VNum 0x102) 3)
        = Ret (b', length (sdp_enc (Data SDP_UINT16 0 (VNum 0x102) 3))))"
  by (rule data_alloc_generates [of SDP_UINT16 "Some (VNum 0x102)"])
    (simp_all add: sdp_data_alloc_def sdp_data_alloc_with_length_def num_arg_def take_bit_eq_mod
      is_str_def is_seq_alt_def scalar_bytes_def)

text \<open>
  \<open>sdp_seq_alloc_with_length\<close> never returns a sequence to a caller that passes one length
  per element: its last call reads the length behind the last one.
\<close>

theorem seq_alloc_with_length_reads_past:
  assumes "length lens = length entries"
  shows "sdp_seq_alloc_with_length entries lens \<noteq> Ret (Some d)"
  using assms by (auto simp: sdp_seq_alloc_with_length_def split: option.split)

theorem seq_alloc_with_length_reads_past_witness:
  "sdp_seq_alloc_with_length [(SDP_UINT8, Some (VNum 5))] [0] \<noteq> Ret (Some (Data SDP_UINT8 0 (VNum 5) 2))"
  by (rule seq_alloc_with_length_reads_past) simp

end
