(* ===== verification/SDP_Record.thy ===== *)
theory SDP_Record
  imports SDP_Data
begin

section \<open>Service records\<close>

text \<open>
  Service records \<open>sdp_record_t\<close>: the attribute list kept sorted by attribute id and the
  search pattern kept sorted by 128-bit UUID (\<open>libs/src/sdp.c\<close>).

  The attribute list interprets \<open>sdp_comparator\<close>; on top of it the record is an instance
  of the interface \<open>attr_store\<close>, a partial function from attribute ids to elements,
  in which the clients' lemmas are proved.
\<close>

abbreviation SDP_ATTR_RECORD_HANDLE :: u16 where "SDP_ATTR_RECORD_HANDLE \<equiv> 0x0000"
abbreviation SDP_ATTR_SVCLASS_ID_LIST :: u16 where "SDP_ATTR_SVCLASS_ID_LIST \<equiv> 0x0001"
abbreviation SDP_ATTR_RECORD_STATE :: u16 where "SDP_ATTR_RECORD_STATE \<equiv> 0x0002"
abbreviation SDP_ATTR_SERVICE_ID :: u16 where "SDP_ATTR_SERVICE_ID \<equiv> 0x0003"
abbreviation SDP_ATTR_LANG_BASE_ATTR_ID_LIST :: u16 where "SDP_ATTR_LANG_BASE_ATTR_ID_LIST \<equiv> 0x0006"
abbreviation SDP_ATTR_SVCINFO_TTL :: u16 where "SDP_ATTR_SVCINFO_TTL \<equiv> 0x0007"
abbreviation SDP_ATTR_SERVICE_AVAILABILITY :: u16 where "SDP_ATTR_SERVICE_AVAILABILITY \<equiv> 0x0008"
abbreviation SDP_ATTR_PFILE_DESC_LIST :: u16 where "SDP_ATTR_PFILE_DESC_LIST \<equiv> 0x0009"
abbreviation SDP_ATTR_DOC_URL :: u16 where "SDP_ATTR_DOC_URL \<equiv> 0x000a"
abbreviation SDP_ATTR_CLNT_EXEC_URL :: u16 where "SDP_ATTR_CLNT_EXEC_URL \<equiv> 0x000b"
abbreviation SDP_ATTR_ICON_URL :: u16 where "SDP_ATTR_ICON_URL \<equiv> 0x000c"
abbreviation SDP_ATTR_SVCNAME_PRIMARY :: u16 where "SDP_ATTR_SVCNAME_PRIMARY \<equiv> 0x0100"
abbreviation SDP_ATTR_SVCDESC_PRIMARY :: u16 where "SDP_ATTR_SVCDESC_PRIMARY \<equiv> 0x0101"
abbreviation SDP_ATTR_PROVNAME_PRIMARY :: u16 where "SDP_ATTR_PROVNAME_PRIMARY \<equiv> 0x0102"
abbreviation SDP_ATTR_GROUP_ID :: u16 where "SDP_ATTR_GROUP_ID \<equiv> 0x0200"
abbreviation SDP_ATTR_VERSION_NUM_LIST :: u16 where "SDP_ATTR_VERSION_NUM_LIST \<equiv> 0x0200"
abbreviation SDP_ATTR_SVCDB_STATE :: u16 where "SDP_ATTR_SVCDB_STATE \<equiv> 0x0201"

subsection \<open>Attributes and pattern\<close>

record sdp_record =
  handle :: u32
  pattern :: "sdp_uuid list"
  attrlist :: "sdp_data list"
  svclass :: sdp_uuid

definition sdp_record_alloc :: sdp_record where
  "sdp_record_alloc =
     \<lparr>handle = 0xffffffff, pattern = [], attrlist = [], svclass = UUID_NONE\<rparr>"

definition set_attrId :: "u16 \<Rightarrow> sdp_data \<Rightarrow> sdp_data" where
  "set_attrId attr d = Data (dtd d) attr (val d) (unitSize d)"

definition sdp_attrid_comp_func :: "sdp_data \<Rightarrow> sdp_data \<Rightarrow> int" where
  "sdp_attrid_comp_func d1 d2 = int (unat (attrId d1)) - int (unat (attrId d2))"

text \<open>The template on the stack of \<open>sdp_data_get\<close> has only its id set.\<close>

definition sdp_data_get :: "sdp_record \<Rightarrow> u16 \<Rightarrow> sdp_data option" where
  "sdp_data_get rec attr = sdp_list_find (attrlist rec) (Data 0 attr (VNum 0) 0) sdp_attrid_comp_func"

text \<open>
  The class of an element that is not a sequence starting with a UUID is not taken over.
  (An element whose descriptor says UUID always stores one, see \<open>gen_ok\<close>.)
\<close>

definition extract_svclass_uuid :: "sdp_data \<Rightarrow> sdp_uuid \<Rightarrow> sdp_uuid" where
  "extract_svclass_uuid data uuid =
     (if dtd data < SDP_SEQ8 \<or> SDP_SEQ32 < dtd data then uuid
      else (case val data of
              VSeq (d # _) \<Rightarrow>
                (if dtd d < SDP_UUID16 \<or> SDP_UUID128 < dtd d then uuid
                 else (case val d of VUuid u \<Rightarrow> u | _ \<Rightarrow> uuid))
            | _ \<Rightarrow> uuid))"

definition sdp_attr_add :: "sdp_record \<Rightarrow> u16 \<Rightarrow> sdp_data \<Rightarrow> int \<times> sdp_record" where
  "sdp_attr_add rec attr d =
     (case sdp_data_get rec attr of
        Some p \<Rightarrow> (-1, rec)
      | None \<Rightarrow>
          (let d' = set_attrId attr d;
               rec' = rec\<lparr>attrlist := sdp_list_insert_sorted (attrlist rec) d' sdp_attrid_comp_func\<rparr>
           in (0, if attr = SDP_ATTR_SVCLASS_ID_LIST
                  then rec'\<lparr>svclass := extract_svclass_uuid d' (svclass rec')\<rparr> else rec')))"

definition sdp_attr_remove :: "sdp_record \<Rightarrow> u16 \<Rightarrow> sdp_record" where
  "sdp_attr_remove rec attr =
     (let rec' = (case sdp_data_get rec attr of
                    Some d \<Rightarrow> rec\<lparr>attrlist := sdp_list_remove (attrlist rec) d\<rparr>
                  | None \<Rightarrow> rec)
      in if attr = SDP_ATTR_SVCLASS_ID_LIST then rec'\<lparr>svclass := UUID_NONE\<rparr> else rec')"

definition sdp_attr_replace :: "sdp_record \<Rightarrow> u16 \<Rightarrow> sdp_data \<Rightarrow> sdp_record" where
  "sdp_attr_replace rec attr d =
     (let rec1 = (case sdp_data_get rec attr of
                    Some p \<Rightarrow> rec\<lparr>attrlist := sdp_list_remove (attrlist rec) p\<rparr>
                  | None \<Rightarrow> rec);
          d' = set_attrId attr d;
          rec2 = rec1\<lparr>attrlist := sdp_list_insert_sorted (attrlist rec1) d' sdp_attrid_comp_func\<rparr>
      in if attr = SDP_ATTR_SVCLASS_ID_LIST
         then rec2\<lparr>svclass := extract_svclass_uuid d' (svclass rec2)\<rparr> else rec2)"

definition sdp_pattern_add_uuid :: "sdp_record \<Rightarrow> sdp_uuid \<Rightarrow> sdp_record" where
  "sdp_pattern_add_uuid rec uuid =
     (let uuid128 = sdp_uuid_to_uuid128 uuid
      in if sdp_list_find (pattern rec) uuid128 sdp_uuid128_cmp = None
         then rec\<lparr>pattern := sdp_list_insert_sorted (pattern rec) uuid128 sdp_uuid128_cmp\<rparr>
         else rec)"

fun sdp_pattern_add_uuidseq :: "sdp_record \<Rightarrow> sdp_uuid list \<Rightarrow> sdp_record" where
  "sdp_pattern_add_uuidseq rec [] = rec"
| "sdp_pattern_add_uuidseq rec (u # us) = sdp_pattern_add_uuidseq (sdp_pattern_add_uuid rec u) us"

definition sdp_attr_add_new :: "sdp_record \<Rightarrow> u16 \<Rightarrow> byte \<Rightarrow> sdp_val option \<Rightarrow> (int \<times> sdp_record) run" where
  "sdp_attr_add_new rec attr t value =
     run_bind (sdp_data_alloc t value) (\<lambda>r.
       case r of Some d \<Rightarrow> Ret (0, sdp_attr_replace rec attr d) | None \<Rightarrow> Ret (-1, rec))"

subsection \<open>The attribute list is a sorted map\<close>

interpretation attrc: sdp_comparator sdp_attrid_comp_func attrId "\<lambda>_. True"
  by unfold_locales (simp_all add: sdp_attrid_comp_func_def word_le_def word_uint_eq_iff)

definition record_inv :: "sdp_record \<Rightarrow> bool" where
  "record_inv rec \<longleftrightarrow>
     sorted (map attrId (attrlist rec)) \<and> distinct (map attrId (attrlist rec))
   \<and> (\<forall>u \<in> set (pattern rec). uuid_type u = SDP_UUID128 \<and> uuid_ok u)
   \<and> sorted (map uuid_key (pattern rec)) \<and> distinct (pattern rec)"

lemma attrId_set_attrId [simp]: "attrId (set_attrId a d) = a"
  by (simp add: set_attrId_def)

lemma val_set_attrId [simp]: "val (set_attrId a d) = val d" "dtd (set_attrId a d) = dtd d"
  "unitSize (set_attrId a d) = unitSize d"
  by (simp_all add: set_attrId_def)

lemma sdp_enc_set_attrId [simp]: "sdp_enc (set_attrId a d) = sdp_enc d"
  by (cases d) (simp add: set_attrId_def)

lemma gen_ok_set_attrId [simp]: "gen_ok (set_attrId a d) = gen_ok d"
  by (cases d) (simp add: set_attrId_def)

lemma data_get_Some: "sdp_data_get rec a = Some d \<Longrightarrow> d \<in> set (attrlist rec) \<and> attrId d = a"
  using attrc.find_mem [of "attrlist rec" "Data 0 a (VNum 0) 0" d]
  by (simp add: sdp_data_get_def)

lemma data_get_None: "sdp_data_get rec a = None \<longleftrightarrow> a \<notin> attrId ` set (attrlist rec)"
  using attrc.find_none [of "attrlist rec" "Data 0 a (VNum 0) 0"]
  by (auto simp: sdp_data_get_def)

lemma data_get_insert:
  "sdp_data_get (rec\<lparr>attrlist := sdp_list_insert_sorted (attrlist rec) d sdp_attrid_comp_func\<rparr>) a
   = (if a = attrId d then Some d else sdp_data_get rec a)"
  using attrc.find_insert [of "attrlist rec" d "Data 0 a (VNum 0) 0"]
  by (simp add: sdp_data_get_def)

lemma data_get_remove:
  assumes "distinct (map attrId (attrlist rec))" and "d \<in> set (attrlist rec)"
  shows "sdp_data_get (rec\<lparr>attrlist := sdp_list_remove (attrlist rec) d\<rparr>) a
         = (if a = attrId d then None else sdp_data_get rec a)"
  using attrc.find_remove [of "attrlist rec" d "Data 0 a (VNum 0) 0"] assms
  by (simp add: sdp_data_get_def)

lemma record_inv_alloc: "record_inv sdp_record_alloc"
  by (simp add: record_inv_def sdp_record_alloc_def)

lemma data_get_alloc [simp]: "sdp_data_get sdp_record_alloc a = None"
  by (simp add: sdp_data_get_def sdp_record_alloc_def)

lemma data_get_cong: "attrlist r = attrlist r' \<Longrightarrow> sdp_data_get r a = sdp_data_get r' a"
  by (simp add: sdp_data_get_def)

lemma record_inv_insert:
  assumes "record_inv rec" and "attrId d \<notin> attrId ` set (attrlist rec)"
  shows "record_inv (rec\<lparr>attrlist := sdp_list_insert_sorted (attrlist rec) d sdp_attrid_comp_func\<rparr>)"
  using assms attrc.ordered_insert [of "attrlist rec" d]
  by (simp add: record_inv_def attrc.ordered_def distinct_map_insert_sorted)

lemma record_inv_remove:
  assumes "record_inv rec"
  shows "record_inv (rec\<lparr>attrlist := sdp_list_remove (attrlist rec) d\<rparr>)"
  using assms attrc.ordered_remove [of "attrlist rec" d]
  by (simp add: record_inv_def attrc.ordered_def distinct_map_sdp_list_remove)

lemma record_inv_svclass [simp]: "record_inv (rec\<lparr>svclass := u\<rparr>) = record_inv rec"
  by (simp add: record_inv_def)

lemma data_get_svclass [simp]: "sdp_data_get (rec\<lparr>svclass := u\<rparr>) a = sdp_data_get rec a"
  by (simp add: sdp_data_get_def)

lemma attr_add_inv: "record_inv rec \<Longrightarrow> record_inv (snd (sdp_attr_add rec a d))"
  by (auto simp: sdp_attr_add_def Let_def data_get_None intro!: record_inv_insert split: option.split)

lemma attr_remove_inv: "record_inv rec \<Longrightarrow> record_inv (sdp_attr_remove rec a)"
  by (auto simp: sdp_attr_remove_def Let_def intro!: record_inv_remove split: option.split)

lemma attr_add_get:
  "sdp_data_get (snd (sdp_attr_add rec a d)) b
   = (case sdp_data_get rec a of
        None \<Rightarrow> if b = a then Some (set_attrId a d) else sdp_data_get rec b
      | Some _ \<Rightarrow> sdp_data_get rec b)"
  by (simp add: sdp_attr_add_def Let_def data_get_insert split: option.split)

lemma attr_remove_get:
  "record_inv rec \<Longrightarrow>
   sdp_data_get (sdp_attr_remove rec a) b = (if b = a then None else sdp_data_get rec b)"
  using data_get_Some [of rec a]
  by (auto simp: sdp_attr_remove_def Let_def record_inv_def data_get_remove split: option.split)

text \<open>Replacing an attribute is removing it and adding the new one; only the class may differ.\<close>

lemma attr_replace_via:
  assumes "record_inv rec"
  shows "attrlist (sdp_attr_replace rec a d) = attrlist (snd (sdp_attr_add (sdp_attr_remove rec a) a d))"
    and "pattern (sdp_attr_replace rec a d) = pattern rec"
proof -
  have "sdp_data_get (sdp_attr_remove rec a) a = None"
    using attr_remove_get [OF assms] by simp
  then show "attrlist (sdp_attr_replace rec a d) = attrlist (snd (sdp_attr_add (sdp_attr_remove rec a) a d))"
    by (simp add: sdp_attr_replace_def sdp_attr_add_def Let_def)
      (simp add: sdp_attr_remove_def Let_def split: option.split)
  show "pattern (sdp_attr_replace rec a d) = pattern rec"
    by (simp add: sdp_attr_replace_def Let_def split: option.split)
qed

lemma record_inv_parts:
  "record_inv rec \<Longrightarrow> attrlist r = attrlist rec \<Longrightarrow> pattern r = pattern rec \<Longrightarrow> record_inv r"
  by (simp add: record_inv_def)

lemma pattern_attr_ops [simp]:
  "pattern (sdp_attr_remove rec a) = pattern rec" "pattern (snd (sdp_attr_add rec a d)) = pattern rec"
  by (simp_all add: sdp_attr_remove_def sdp_attr_add_def Let_def split: option.split)

lemma attr_replace_inv: "record_inv rec \<Longrightarrow> record_inv (sdp_attr_replace rec a d)"
  using record_inv_parts [OF attr_add_inv [OF attr_remove_inv]] attr_replace_via by simp

lemma attr_replace_get:
  assumes "record_inv rec"
  shows "sdp_data_get (sdp_attr_replace rec a d) b = (if b = a then Some (set_attrId a d) else sdp_data_get rec b)"
  using data_get_cong [OF attr_replace_via(1) [OF assms]] attr_add_get attr_remove_get [OF assms]
  by simp

text \<open>The pattern holds, in order and once each, the 128-bit forms of the UUIDs added.\<close>

lemma pattern_find:
  assumes "record_inv rec" and "uuid_ok u" and "u \<noteq> UUID_NONE"
  shows "sdp_list_find (pattern rec) (sdp_uuid_to_uuid128 u) sdp_uuid128_cmp = None
     \<longleftrightarrow> sdp_uuid_to_uuid128 u \<notin> set (pattern rec)"
proof -
  have "x = sdp_uuid_to_uuid128 u"
    if "x \<in> set (pattern rec)" "uuid_key x = uuid_key (sdp_uuid_to_uuid128 u)" for x
    using that assms uuid_key_inj [of x "sdp_uuid_to_uuid128 u"] uuid_ok_to_uuid128 uuid_type_to_uuid128
    by (auto simp: record_inv_def)
  then show ?thesis
    using assms uuidc.find_none [of "pattern rec" "sdp_uuid_to_uuid128 u"] uuid_ok_to_uuid128
    by (auto simp: record_inv_def)
qed

lemma pattern_add_set:
  assumes "record_inv rec" and "uuid_ok u" and "u \<noteq> UUID_NONE"
  shows "set (pattern (sdp_pattern_add_uuid rec u)) = insert (sdp_uuid_to_uuid128 u) (set (pattern rec))"
  using pattern_find [OF assms] by (auto simp: sdp_pattern_add_uuid_def Let_def)

lemma pattern_add_inv:
  assumes "record_inv rec" and "uuid_ok u" and "u \<noteq> UUID_NONE"
  shows "record_inv (sdp_pattern_add_uuid rec u)"
proof (cases "sdp_uuid_to_uuid128 u \<in> set (pattern rec)")
  case True
  then show ?thesis
    using assms pattern_find [OF assms] by (auto simp: sdp_pattern_add_uuid_def Let_def)
next
  case False
  have "uuidc.ordered (sdp_list_insert_sorted (pattern rec) (sdp_uuid_to_uuid128 u) sdp_uuid128_cmp)"
    using assms uuid_ok_to_uuid128 by (intro uuidc.ordered_insert) (auto simp: record_inv_def uuidc.ordered_def)
  then show ?thesis
    using assms False pattern_find [OF assms] uuid_type_to_uuid128 [of u] uuid_ok_to_uuid128 [of u]
    by (simp add: sdp_pattern_add_uuid_def record_inv_def uuidc.ordered_def Let_def)
qed

lemma data_get_pattern [simp]: "sdp_data_get (sdp_pattern_add_uuid rec u) = sdp_data_get rec"
  by (simp add: fun_eq_iff sdp_pattern_add_uuid_def sdp_data_get_def Let_def)

lemma pattern_add_seq:
  assumes "record_inv rec" and "\<forall>u \<in> set us. uuid_ok u \<and> u \<noteq> UUID_NONE"
  shows "record_inv (sdp_pattern_add_uuidseq rec us)
    \<and> set (pattern (sdp_pattern_add_uuidseq rec us)) = sdp_uuid_to_uuid128 ` set us \<union> set (pattern rec)
    \<and> sdp_data_get (sdp_pattern_add_uuidseq rec us) = sdp_data_get rec"
  using assms
proof (induction us arbitrary: rec)
  case (Cons u us)
  then have "record_inv (sdp_pattern_add_uuid rec u)"
    by (intro pattern_add_inv) auto
  with Cons show ?case
    using pattern_add_set [of rec u] by (auto simp: fun_eq_iff)
qed simp

subsection \<open>Clients of the attribute store\<close>

locale attr_store =
  fixes get :: "'r \<Rightarrow> u16 \<Rightarrow> sdp_data option"
    and put :: "'r \<Rightarrow> u16 \<Rightarrow> sdp_data \<Rightarrow> 'r"
    and inv :: "'r \<Rightarrow> bool"
  assumes inv_put: "inv r \<Longrightarrow> inv (put r a d)"
    and get_put: "inv r \<Longrightarrow> get (put r a d) b = (if b = a then Some (set_attrId a d) else get r b)"
begin

definition puts :: "(u16 \<times> sdp_data) list \<Rightarrow> 'r \<Rightarrow> 'r" where
  "puts ads r = fold (\<lambda>(a, d) r. put r a d) ads r"

lemma puts_simps [simp]: "puts [] r = r" "puts ((a, d) # ads) r = puts ads (put r a d)"
  by (simp_all add: puts_def)

lemma inv_puts: "inv r \<Longrightarrow> inv (puts ads r)"
  by (induction ads arbitrary: r) (auto simp: inv_put)

text \<open>After a sequence of writes every attribute holds what was written to it last.\<close>

lemma get_puts:
  "inv r \<Longrightarrow> get (puts ads r) b
     = (case map_of (rev ads) b of Some d \<Rightarrow> Some (set_attrId b d) | None \<Rightarrow> get r b)"
proof (induction ads arbitrary: r)
  case (Cons x ads)
  obtain a d where x: "x = (a, d)" by fastforce
  show ?case
    using Cons.IH [OF inv_put [OF Cons.prems, of a d]] get_put [OF Cons.prems, of a d b]
    by (auto simp: x map_add_def split: option.split)
qed simp

end

interpretation recs: attr_store sdp_data_get sdp_attr_replace record_inv
  by unfold_locales (simp_all add: attr_replace_inv attr_replace_get)

subsection \<open>Properties\<close>

text \<open>
  C6: the attribute list is a sorted map without duplicates. Adding, replacing and removing
  an attribute keep it so; replacing sets this attribute and no other, removing clears it
  and no other, and adding does nothing but answer -1 when the attribute is there.
\<close>

theorem attribute_list_is_a_map:
  assumes "record_inv rec"
  shows "record_inv (snd (sdp_attr_add rec a d)) \<and> record_inv (sdp_attr_remove rec a)
    \<and> record_inv (sdp_attr_replace rec a d)
    \<and> sdp_data_get (sdp_attr_replace rec a d) b = (if b = a then Some (set_attrId a d) else sdp_data_get rec b)
    \<and> sdp_data_get (sdp_attr_remove rec a) b = (if b = a then None else sdp_data_get rec b)
    \<and> (case sdp_data_get rec a of
         Some _ \<Rightarrow> sdp_attr_add rec a d = (-1, rec)
       | None \<Rightarrow> fst (sdp_attr_add rec a d) = 0
           \<and> sdp_data_get (snd (sdp_attr_add rec a d)) b = (if b = a then Some (set_attrId a d) else sdp_data_get rec b))"
proof -
  have "case sdp_data_get rec a of
         Some _ \<Rightarrow> sdp_attr_add rec a d = (-1, rec)
       | None \<Rightarrow> fst (sdp_attr_add rec a d) = 0
           \<and> sdp_data_get (snd (sdp_attr_add rec a d)) b = (if b = a then Some (set_attrId a d) else sdp_data_get rec b)"
    using attr_add_get [of rec a d b] by (cases "sdp_data_get rec a") (simp_all add: sdp_attr_add_def Let_def)
  then show ?thesis
    using assms by (simp add: attr_add_inv attr_remove_inv attr_replace_inv attr_replace_get attr_remove_get)
qed

theorem attribute_list_is_a_map_witness:
  "record_inv sdp_record_alloc
   \<and> sdp_data_get (sdp_attr_replace sdp_record_alloc 5 (Data SDP_UINT8 0 (VNum 1) 2)) 5
       = Some (Data SDP_UINT8 5 (VNum 1) 2)"
  using attribute_list_is_a_map [of sdp_record_alloc 5 "Data SDP_UINT8 0 (VNum 1) 2" 5] record_inv_alloc
  by (simp add: set_attrId_def)

text \<open>
  C7: the search pattern of a record is a sorted list without duplicates of 128-bit UUIDs,
  and after adding a sequence of UUIDs of any width it holds their 128-bit forms besides
  what it held; the attributes are not touched.
\<close>

theorem pattern_collects_uuids:
  assumes "record_inv rec" and "\<forall>u \<in> set us. uuid_ok u \<and> u \<noteq> UUID_NONE"
  shows "record_inv (sdp_pattern_add_uuidseq rec us)
    \<and> set (pattern (sdp_pattern_add_uuidseq rec us)) = sdp_uuid_to_uuid128 ` set us \<union> set (pattern rec)
    \<and> sdp_data_get (sdp_pattern_add_uuidseq rec us) = sdp_data_get rec"
  by (rule pattern_add_seq [OF assms])

theorem pattern_collects_uuids_witness:
  "set (pattern (sdp_pattern_add_uuidseq sdp_record_alloc [UUID16 0x1101, UUID32 0x1101]))
     = {sdp_uuid_to_uuid128 (UUID16 0x1101), sdp_uuid_to_uuid128 (UUID32 0x1101)}"
  using pattern_collects_uuids [of sdp_record_alloc "[UUID16 0x1101, UUID32 0x1101]"] record_inv_alloc
  by (simp add: sdp_record_alloc_def)

end
