(* ===== verification/SDP_Attributes.thy ===== *)
theory SDP_Attributes
  imports SDP_Record
begin

section \<open>Setters and getters of the standard attributes\<close>

text \<open>
  The routines of \<open>libs/src/sdp.c\<close> that set and read the standard attributes of a record,
  and the proofs that what is set is what is read. The getters return \<open>Ret None\<close> for the
  status -1; \<open>errno\<close> is not modelled.
\<close>

subsection \<open>Setters\<close>

text \<open>The array entry made of a UUID; \<open>None\<close> for a type that is none of the three.\<close>

fun uuid_entry :: "sdp_uuid \<Rightarrow> (byte \<times> sdp_val option) option" where
  "uuid_entry (UUID16 v) = Some (SDP_UUID16, Some (VNum (ucast v)))"
| "uuid_entry (UUID32 v) = Some (SDP_UUID32, Some (VNum (ucast v)))"
| "uuid_entry (UUID128 b) = Some (SDP_UUID128, Some (VNum128 b))"
| "uuid_entry UUID_NONE = None"

text \<open>
  The filling loop of \<open>sdp_set_uuidseq_attr\<close>: \<open>None\<close> is the status -1, which both a null
  list entry and an unknown type leave behind.
\<close>

fun uuidseq_entries :: "sdp_uuid option list \<Rightarrow> (byte \<times> sdp_val option) list option" where
  "uuidseq_entries [] = Some []"
| "uuidseq_entries (None # us) = None"
| "uuidseq_entries (Some u # us) =
     (case uuid_entry u of
        None \<Rightarrow> None
      | Some e \<Rightarrow> map_option ((#) e) (uuidseq_entries us))"

definition sdp_set_uuidseq_attr ::
    "sdp_record \<Rightarrow> u16 \<Rightarrow> sdp_uuid option list \<Rightarrow> (int \<times> sdp_record) run" where
  "sdp_set_uuidseq_attr rec aid seq =
     (if seq = [] then Ret (-1, rec)
      else (case uuidseq_entries seq of
              None \<Rightarrow> Ret (-1, rec)
            | Some es \<Rightarrow>
                run_bind (sdp_seq_alloc es) (\<lambda>r.
                  case r of
                    None \<Rightarrow> Fault
                  | Some d \<Rightarrow>
                      Ret (0, sdp_pattern_add_uuidseq (sdp_attr_replace rec aid d)
                                (map the seq)))))"

definition set_uuid_attr :: "sdp_record \<Rightarrow> u16 \<Rightarrow> sdp_uuid \<Rightarrow> sdp_record run" where
  "set_uuid_attr rec attr uuid =
     run_bind (case uuid_entry uuid of
                 Some (t, v) \<Rightarrow> sdp_attr_add_new rec attr t v
               | None \<Rightarrow> Ret (0, rec))
       (\<lambda>(_, rec'). Ret (sdp_pattern_add_uuid rec' uuid))"

definition sdp_set_service_id :: "sdp_record \<Rightarrow> sdp_uuid \<Rightarrow> sdp_record run" where
  "sdp_set_service_id rec uuid = set_uuid_attr rec SDP_ATTR_SERVICE_ID uuid"

definition sdp_set_group_id :: "sdp_record \<Rightarrow> sdp_uuid \<Rightarrow> sdp_record run" where
  "sdp_set_group_id rec uuid = set_uuid_attr rec SDP_ATTR_GROUP_ID uuid"

text \<open>Strings are given as the object the pointer leads to, \<open>None\<close> for the null pointer.\<close>

definition add_opt_str :: "u16 \<Rightarrow> byte list option \<Rightarrow> sdp_record \<Rightarrow> sdp_record run" where
  "add_opt_str attr s rec =
     (case s of
        None \<Rightarrow> Ret rec
      | Some v \<Rightarrow> run_bind (sdp_attr_add_new rec attr SDP_TEXT_STR8 (Some (VStr v))) (\<lambda>(_, rec'). Ret rec'))"

definition sdp_set_info_attr ::
    "sdp_record \<Rightarrow> byte list option \<Rightarrow> byte list option \<Rightarrow> byte list option \<Rightarrow> sdp_record run" where
  "sdp_set_info_attr rec name prov desc =
     run_bind (add_opt_str SDP_ATTR_SVCNAME_PRIMARY name rec) (\<lambda>rec1.
     run_bind (add_opt_str SDP_ATTR_PROVNAME_PRIMARY prov rec1)
       (add_opt_str SDP_ATTR_SVCDESC_PRIMARY desc))"

definition add_url :: "u16 \<Rightarrow> byte list option \<Rightarrow> sdp_record \<Rightarrow> sdp_record run" where
  "add_url attr s rec =
     run_bind (sdp_attr_add_new rec attr SDP_URL_STR8 (map_option VStr s)) (\<lambda>(_, rec'). Ret rec')"

definition sdp_set_url_attr ::
    "sdp_record \<Rightarrow> byte list option \<Rightarrow> byte list option \<Rightarrow> byte list option \<Rightarrow> sdp_record run" where
  "sdp_set_url_attr rec client doc icon =
     run_bind (add_url SDP_ATTR_CLNT_EXEC_URL client rec) (\<lambda>rec1.
     run_bind (add_url SDP_ATTR_DOC_URL doc rec1) (add_url SDP_ATTR_ICON_URL icon))"

record sdp_lang_attr =
  code_ISO639 :: u16
  encoding :: u16
  base_offset :: u16

definition u16_entry :: "u16 \<Rightarrow> byte \<times> sdp_val option" where
  "u16_entry v = (SDP_UINT16, Some (VNum (ucast v)))"

definition lang_entries :: "sdp_lang_attr \<Rightarrow> (byte \<times> sdp_val option) list" where
  "lang_entries l = [u16_entry (code_ISO639 l), u16_entry (encoding l), u16_entry (base_offset l)]"

definition sdp_set_lang_attr :: "sdp_record \<Rightarrow> sdp_lang_attr option list \<Rightarrow> (int \<times> sdp_record) run" where
  "sdp_set_lang_attr rec seq =
     (if None \<in> set seq then Ret (-1, rec)
      else run_bind (sdp_seq_alloc (concat (map (lang_entries \<circ> the) seq))) (\<lambda>r.
             case r of
               None \<Rightarrow> Fault
             | Some d \<Rightarrow> Ret (0, snd (sdp_attr_add rec SDP_ATTR_LANG_BASE_ATTR_ID_LIST d))))"

record sdp_profile_desc =
  prof_uuid :: sdp_uuid
  version :: u16

text \<open>
  The loop of \<open>sdp_set_profile_descs\<close>. A UUID of unknown type sets the status but goes on to
  use the array entry that was never filled.
\<close>

fun profile_loop ::
    "sdp_record \<Rightarrow> sdp_profile_desc option list \<Rightarrow> (int \<times> sdp_record \<times> (byte \<times> sdp_val option) list) run" where
  "profile_loop rec [] = Ret (0, rec, [])"
| "profile_loop rec (None # ps) = Ret (-1, rec, [])"
| "profile_loop rec (Some p # ps) =
     (case uuid_entry (prof_uuid p) of
        None \<Rightarrow> Fault
      | Some e \<Rightarrow>
          run_bind (sdp_seq_alloc [e, u16_entry (version p)]) (\<lambda>r.
            case r of
              None \<Rightarrow> Fault
            | Some d \<Rightarrow>
                run_bind (profile_loop (sdp_pattern_add_uuid rec (prof_uuid p)) ps)
                  (\<lambda>(st, rec', es). Ret (st, rec', (dtd d, Some (VSeq [d])) # es))))"

definition sdp_set_profile_descs :: "sdp_record \<Rightarrow> sdp_profile_desc option list \<Rightarrow> (int \<times> sdp_record) run" where
  "sdp_set_profile_descs rec profiles =
     run_bind (profile_loop rec profiles) (\<lambda>(st, rec', es).
       if st = 0
       then run_bind (sdp_seq_alloc es) (\<lambda>r.
              case r of
                None \<Rightarrow> Fault
              | Some d \<Rightarrow> Ret (st, snd (sdp_attr_add rec' SDP_ATTR_PFILE_DESC_LIST d)))
       else Ret (st, rec'))"

subsection \<open>Getters\<close>

text \<open>Reading a member of the union; the chain behind \<open>dataseq\<close> is empty for a null pointer.\<close>

definition val_num :: "sdp_val \<Rightarrow> u64 run" where
  "val_num v = (case v of VNum w \<Rightarrow> Ret w | _ \<Rightarrow> Fault)"

definition val_uuid :: "sdp_val \<Rightarrow> sdp_uuid run" where
  "val_uuid v = (case v of VUuid u \<Rightarrow> Ret u | _ \<Rightarrow> Fault)"

definition val_dataseq :: "sdp_val \<Rightarrow> sdp_data list run" where
  "val_dataseq v = (case v of VSeq ds \<Rightarrow> Ret ds | VNum w \<Rightarrow> if w = 0 then Ret [] else Fault | _ \<Rightarrow> Fault)"

definition sdp_get_int_attr :: "sdp_record \<Rightarrow> u16 \<Rightarrow> int option run" where
  "sdp_get_int_attr rec attr =
     (case sdp_data_get rec attr of
        None \<Rightarrow> Ret None
      | Some d \<Rightarrow>
          if dtd d \<in> {SDP_BOOL, SDP_UINT8, SDP_UINT16, SDP_UINT32, SDP_INT8, SDP_INT16, SDP_INT32}
          then run_bind (val_num (val d)) (\<lambda>w. Ret (Some (sint (ucast w :: u32))))
          else Ret None)"

definition sdp_get_string_attr :: "sdp_record \<Rightarrow> u16 \<Rightarrow> nat \<Rightarrow> byte list option run" where
  "sdp_get_string_attr rec attr valuelen =
     (case sdp_data_get rec attr of
        None \<Rightarrow> Ret None
      | Some d \<Rightarrow>
          if dtd d \<in> {SDP_TEXT_STR8, SDP_TEXT_STR16, SDP_TEXT_STR32}
          then (case val d of
                  VStr s \<Rightarrow> run_bind (strlen s) (\<lambda>n. Ret (if n < valuelen then Some (take n s) else None))
                | _ \<Rightarrow> Fault)
          else Ret None)"

fun uuid_walk :: "sdp_data list \<Rightarrow> sdp_uuid list option run" where
  "uuid_walk [] = Ret (Some [])"
| "uuid_walk (d # ds) =
     (if dtd d < SDP_UUID16 \<or> SDP_UUID128 < dtd d then Ret None
      else run_bind (val_uuid (val d)) (\<lambda>u.
           run_bind (uuid_walk ds) (\<lambda>r. Ret (map_option ((#) u) r))))"

definition sdp_get_uuidseq_attr :: "sdp_record \<Rightarrow> u16 \<Rightarrow> sdp_uuid list option run" where
  "sdp_get_uuidseq_attr rec attr =
     (case sdp_data_get rec attr of
        None \<Rightarrow> Ret None
      | Some d \<Rightarrow>
          if SDP_SEQ8 \<le> dtd d \<and> dtd d \<le> SDP_SEQ32
          then run_bind (val_dataseq (val d)) uuid_walk else Ret None)"

text \<open>
  The loop of \<open>sdp_get_lang_attr\<close> follows \<open>next\<close> twice before it tests for null, so a
  chain whose length is not a multiple of three leads through the null pointer.
\<close>

fun lang_walk :: "sdp_data list \<Rightarrow> sdp_lang_attr list run" where
  "lang_walk (c # e # off # ds) =
     run_bind (val_num (val c)) (\<lambda>cv.
     run_bind (val_num (val e)) (\<lambda>ev.
     run_bind (val_num (val off)) (\<lambda>ov.
     run_bind (lang_walk ds) (\<lambda>r.
       Ret (\<lparr>code_ISO639 = ucast cv, encoding = ucast ev, base_offset = ucast ov\<rparr> # r)))))"
| "lang_walk [] = Ret []"
| "lang_walk [c] = Fault"
| "lang_walk [c, e] = Fault"

definition sdp_get_lang_attr :: "sdp_record \<Rightarrow> sdp_lang_attr list option run" where
  "sdp_get_lang_attr rec =
     (case sdp_data_get rec SDP_ATTR_LANG_BASE_ATTR_ID_LIST of
        None \<Rightarrow> Ret None
      | Some d \<Rightarrow> run_bind (val_dataseq (val d)) (\<lambda>ds. run_bind (lang_walk ds) (\<lambda>r. Ret (Some r))))"

text \<open>
  The loop of \<open>sdp_get_profile_descs\<close> ends at the first element whose \<open>val.dataseq\<close>, read
  as a pointer whatever is stored there, is null.
\<close>

fun profile_walk :: "sdp_data list \<Rightarrow> sdp_profile_desc list run" where
  "profile_walk [] = Ret []"
| "profile_walk (d # ds) =
     (if val d = VSeq [] \<or> val d = VNum 0 \<or> val d = VUuid UUID_NONE then Ret []
      else if SDP_IS_UUID (dtd d) then
        run_bind (val_uuid (val d)) (\<lambda>u.
        run_bind (profile_walk ds) (\<lambda>r. Ret (\<lparr>prof_uuid = u, version = 0x100\<rparr> # r)))
      else
        (case val d of
           VSeq (pu # pv # _) \<Rightarrow>
             run_bind (val_uuid (val pu)) (\<lambda>u.
             run_bind (val_num (val pv)) (\<lambda>w.
             run_bind (profile_walk ds) (\<lambda>r. Ret (\<lparr>prof_uuid = u, version = ucast w\<rparr> # r))))
         | VSeq [pu] \<Rightarrow> profile_walk ds
         | _ \<Rightarrow> Fault))"

definition sdp_get_profile_descs :: "sdp_record \<Rightarrow> sdp_profile_desc list option run" where
  "sdp_get_profile_descs rec =
     (case sdp_data_get rec SDP_ATTR_PFILE_DESC_LIST of
        None \<Rightarrow> Ret None
      | Some d \<Rightarrow> run_bind (val_dataseq (val d)) (\<lambda>ds.
          if ds = [] then Ret None else run_bind (profile_walk ds) (\<lambda>r. Ret (Some r))))"

fun num_walk :: "sdp_data list \<Rightarrow> u16 list run" where
  "num_walk [] = Ret []"
| "num_walk (d # ds) =
     run_bind (val_num (val d)) (\<lambda>w. run_bind (num_walk ds) (\<lambda>r. Ret (ucast w # r)))"

definition sdp_get_server_ver :: "sdp_record \<Rightarrow> u16 list option run" where
  "sdp_get_server_ver rec =
     (case sdp_data_get rec SDP_ATTR_VERSION_NUM_LIST of
        None \<Rightarrow> Ret None
      | Some d \<Rightarrow> run_bind (val_dataseq (val d)) (\<lambda>ds. run_bind (num_walk ds) (\<lambda>r. Ret (Some r))))"

text \<open>The macro \<open>get_basic_attr\<close> at its two kinds of members, and its instances.\<close>

definition get_basic_uuid :: "sdp_record \<Rightarrow> u16 \<Rightarrow> sdp_uuid option run" where
  "get_basic_uuid rec attr =
     (case sdp_data_get rec attr of
        None \<Rightarrow> Ret None | Some d \<Rightarrow> run_bind (val_uuid (val d)) (\<lambda>u. Ret (Some u)))"

definition get_basic_num :: "sdp_record \<Rightarrow> u16 \<Rightarrow> u64 option run" where
  "get_basic_num rec attr =
     (case sdp_data_get rec attr of
        None \<Rightarrow> Ret None | Some d \<Rightarrow> run_bind (val_num (val d)) (\<lambda>w. Ret (Some w)))"

definition sdp_get_service_id :: "sdp_record \<Rightarrow> sdp_uuid option run" where
  "sdp_get_service_id rec = get_basic_uuid rec SDP_ATTR_SERVICE_ID"

definition sdp_get_group_id :: "sdp_record \<Rightarrow> sdp_uuid option run" where
  "sdp_get_group_id rec = get_basic_uuid rec SDP_ATTR_GROUP_ID"

definition sdp_get_record_state :: "sdp_record \<Rightarrow> u32 option run" where
  "sdp_get_record_state rec =
     run_bind (get_basic_num rec SDP_ATTR_RECORD_STATE) (\<lambda>r. Ret (map_option ucast r))"

definition sdp_get_service_avail :: "sdp_record \<Rightarrow> byte option run" where
  "sdp_get_service_avail rec =
     run_bind (get_basic_num rec SDP_ATTR_SERVICE_AVAILABILITY) (\<lambda>r. Ret (map_option ucast r))"

definition sdp_get_service_ttl :: "sdp_record \<Rightarrow> u32 option run" where
  "sdp_get_service_ttl rec =
     run_bind (get_basic_num rec SDP_ATTR_SVCINFO_TTL) (\<lambda>r. Ret (map_option ucast r))"

definition sdp_get_database_state :: "sdp_record \<Rightarrow> u32 option run" where
  "sdp_get_database_state rec =
     run_bind (get_basic_num rec SDP_ATTR_SVCDB_STATE) (\<lambda>r. Ret (map_option ucast r))"

subsection \<open>Setters and getters agree\<close>

text \<open>The element an array entry becomes; a list of entries becomes the list of elements.\<close>

definition entry_elem :: "byte \<times> sdp_val option \<Rightarrow> sdp_data \<Rightarrow> bool" where
  "entry_elem e d \<longleftrightarrow> seq_alloc_elems [e] = Ret (Some [d])"

lemma seq_alloc_elems_list: "list_all2 entry_elem es ds \<Longrightarrow> seq_alloc_elems es = Ret (Some ds)"
proof (induction rule: list_all2_induct)
  case (Cons e es d ds)
  then show ?case
    by (cases e) (auto simp: entry_elem_def split: if_splits option.splits)
qed simp

lemma sdp_seq_alloc_list:
  "list_all2 entry_elem es ds \<Longrightarrow>
   sdp_seq_alloc es = Ret (Some (Data SDP_SEQ8 0 (VSeq ds) (2 + sum_list (map unitSize ds))))"
  by (simp add: sdp_seq_alloc_def seq_alloc_elems_list sdp_data_alloc_def sdp_data_alloc_with_length_def
      is_seq_alt_def len_width_def)

definition uuid_elem :: "sdp_uuid \<Rightarrow> sdp_data" where
  "uuid_elem u = Data (uuid_type u) 0 (VUuid u)
     (case u of UUID16 _ \<Rightarrow> 3 | UUID32 _ \<Rightarrow> 5 | UUID128 _ \<Rightarrow> 17 | UUID_NONE \<Rightarrow> 0)"

definition u16_elem :: "u16 \<Rightarrow> sdp_data" where
  "u16_elem v = Data SDP_UINT16 0 (VNum (ucast v)) 3"

lemma ucast_up_down [simp]:
  "ucast (ucast (v :: u16) :: u64) = v" "ucast (ucast (w :: u32) :: u64) = w"
proof -
  have "unat v < 65536" "unat w < 4294967296"
    using unsigned_less [of v] unsigned_less [of w] by simp_all
  then show "ucast (ucast v :: u64) = v" "ucast (ucast w :: u64) = w"
    by (simp_all add: word_unat_eq_iff unat_ucast_mod)
qed

lemma entry_uuid: "uuid_ok u \<Longrightarrow> uuid_entry u = Some e \<Longrightarrow> entry_elem e (uuid_elem u)"
  by (cases u)
    (auto simp: entry_elem_def uuid_elem_def sdp_data_alloc_def sdp_data_alloc_with_length_def
      sdp_uuid16_create_def sdp_uuid32_create_def sdp_uuid128_create_def)

lemma entry_u16: "entry_elem (u16_entry w) (u16_elem w)"
proof -
  have "take_bit 16 (ucast w :: u64) = ucast w"
    by (rule bit_word_eqI) (auto simp: bit_simps dest: bit_imp_le_length)
  then show ?thesis
    by (simp add: entry_elem_def u16_entry_def u16_elem_def sdp_data_alloc_def
        sdp_data_alloc_with_length_def num_arg_def)
qed

lemma entry_seq: "entry_elem (SDP_SEQ8, Some (VSeq [d])) d"
  by (simp add: entry_elem_def)

lemma uuidseq_entries_ok:
  "\<forall>u \<in> set us. uuid_ok u \<and> u \<noteq> UUID_NONE \<Longrightarrow>
   \<exists>es. uuidseq_entries (map Some us) = Some es \<and> list_all2 entry_elem es (map uuid_elem us)"
proof (induction us)
  case (Cons u us)
  then obtain e where "uuid_entry u = Some e" by (cases u) auto
  with Cons entry_uuid [of u e] show ?case by auto
qed simp

lemma uuid_walk_elems:
  "\<forall>u \<in> set us. u \<noteq> UUID_NONE \<Longrightarrow> uuid_walk (map uuid_elem us) = Ret (Some us)"
proof (induction us)
  case (Cons u us)
  then show ?case
    by (cases u) (auto simp: uuid_elem_def val_uuid_def)
qed simp

lemma set_uuidseq_effect:
  assumes "record_inv rec" and "us \<noteq> []" and "\<forall>u \<in> set us. uuid_ok u \<and> u \<noteq> UUID_NONE"
  obtains rec' d where "sdp_set_uuidseq_attr rec aid (map Some us) = Ret (0, rec')"
    "record_inv rec'" "set (pattern rec') = sdp_uuid_to_uuid128 ` set us \<union> set (pattern rec)"
    "sdp_data_get rec' = (sdp_data_get rec)(aid \<mapsto> set_attrId aid d)"
    "dtd d = SDP_SEQ8" "val d = VSeq (map uuid_elem us)"
proof -
  obtain es where es: "uuidseq_entries (map Some us) = Some es" "list_all2 entry_elem es (map uuid_elem us)"
    using uuidseq_entries_ok assms(3) by blast
  define d where "d = Data SDP_SEQ8 0 (VSeq (map uuid_elem us)) (2 + sum_list (map unitSize (map uuid_elem us)))"
  let ?rec1 = "sdp_attr_replace rec aid d"
  have r: "sdp_set_uuidseq_attr rec aid (map Some us) = Ret (0, sdp_pattern_add_uuidseq ?rec1 us)"
    using es assms(2) sdp_seq_alloc_list [OF es(2)] by (simp add: sdp_set_uuidseq_attr_def d_def o_def)
  have "sdp_data_get ?rec1 = (sdp_data_get rec)(aid \<mapsto> set_attrId aid d)"
    by (rule ext) (simp add: attr_replace_get [OF assms(1)])
  then show thesis
    using that [OF r] pattern_add_seq [OF attr_replace_inv [OF assms(1)] assms(3), of aid d]
      attr_replace_via(2) [OF assms(1)]
    by (simp add: d_def)
qed


lemma lang_walk_elems:
  "lang_walk (concat (map (\<lambda>l. [u16_elem (code_ISO639 l), u16_elem (encoding l), u16_elem (base_offset l)]) ls)) = Ret ls"
  by (induction ls) (auto simp: u16_elem_def val_num_def)

lemma set_lang_effect:
  assumes "record_inv rec" and "sdp_data_get rec SDP_ATTR_LANG_BASE_ATTR_ID_LIST = None"
  obtains rec' where "sdp_set_lang_attr rec (map Some ls) = Ret (0, rec')" "record_inv rec'"
    "sdp_get_lang_attr rec' = Ret (Some ls)"
proof -
  let ?ds = "concat (map (\<lambda>l. [u16_elem (code_ISO639 l), u16_elem (encoding l), u16_elem (base_offset l)]) ls)"
  have es: "list_all2 entry_elem (concat (map (lang_entries \<circ> the) (map Some ls))) ?ds"
    by (induction ls) (simp_all add: lang_entries_def entry_u16)
  define d where "d = Data SDP_SEQ8 0 (VSeq ?ds) (2 + sum_list (map unitSize ?ds))"
  let ?rec = "snd (sdp_attr_add rec SDP_ATTR_LANG_BASE_ATTR_ID_LIST d)"
  have "None \<notin> set (map Some ls)" by auto
  then have r: "sdp_set_lang_attr rec (map Some ls) = Ret (0, ?rec)"
    using sdp_seq_alloc_list [OF es] unfolding sdp_set_lang_attr_def d_def by simp
  have "sdp_data_get ?rec SDP_ATTR_LANG_BASE_ATTR_ID_LIST = Some (set_attrId SDP_ATTR_LANG_BASE_ATTR_ID_LIST d)"
    using assms(2) by (simp add: attr_add_get)
  then have "sdp_get_lang_attr ?rec = Ret (Some ls)"
    by (simp add: sdp_get_lang_attr_def d_def val_dataseq_def lang_walk_elems)
  with that r attr_add_inv [OF assms(1)] show thesis by blast
qed

text \<open>A value that is already there stays, and the setter still answers 0.\<close>

lemma set_lang_keeps:
  assumes "sdp_data_get rec SDP_ATTR_LANG_BASE_ATTR_ID_LIST = Some d0"
  shows "sdp_set_lang_attr rec (map Some ls) = Ret (0, rec)"
proof -
  have es: "list_all2 entry_elem (concat (map (lang_entries \<circ> the) (map Some ls)))
      (concat (map (\<lambda>l. [u16_elem (code_ISO639 l), u16_elem (encoding l), u16_elem (base_offset l)]) ls))"
    by (induction ls) (simp_all add: lang_entries_def entry_u16)
  have "None \<notin> set (map Some ls)" by auto
  then show ?thesis
    using sdp_seq_alloc_list [OF es] assms unfolding sdp_set_lang_attr_def
    by (simp add: sdp_attr_add_def)
qed

definition profile_elem :: "sdp_profile_desc \<Rightarrow> sdp_data" where
  "profile_elem p = Data SDP_SEQ8 0 (VSeq [uuid_elem (prof_uuid p), u16_elem (version p)])
     (2 + unitSize (uuid_elem (prof_uuid p)) + 3)"

lemma dtd_profile_elem: "dtd (profile_elem p) = SDP_SEQ8"
  by (simp add: profile_elem_def)

lemma profile_loop_elems:
  assumes "record_inv rec" and "\<forall>p \<in> set ps. uuid_ok (prof_uuid p) \<and> prof_uuid p \<noteq> UUID_NONE"
  shows "\<exists>rec' es. profile_loop rec (map Some ps) = Ret (0, rec', es) \<and> record_inv rec'
    \<and> list_all2 entry_elem es (map profile_elem ps) \<and> sdp_data_get rec' = sdp_data_get rec
    \<and> set (pattern rec') = sdp_uuid_to_uuid128 ` prof_uuid ` set ps \<union> set (pattern rec)"
  using assms
proof (induction ps arbitrary: rec)
  case (Cons p ps)
  let ?r1 = "sdp_pattern_add_uuid rec (prof_uuid p)"
  from Cons.prems have p: "uuid_ok (prof_uuid p)" "prof_uuid p \<noteq> UUID_NONE" by auto
  then obtain e where e: "uuid_entry (prof_uuid p) = Some e" by (cases "prof_uuid p") auto
  have "list_all2 entry_elem [e, u16_entry (version p)] [uuid_elem (prof_uuid p), u16_elem (version p)]"
    using entry_uuid [OF p(1) e] entry_u16 by simp
  from sdp_seq_alloc_list [OF this]
  have al: "sdp_seq_alloc [e, u16_entry (version p)] = Ret (Some (profile_elem p))"
    by (simp add: profile_elem_def u16_elem_def)
  obtain rec' es where IH: "profile_loop ?r1 (map Some ps) = Ret (0, rec', es)" "record_inv rec'"
      "list_all2 entry_elem es (map profile_elem ps)" "sdp_data_get rec' = sdp_data_get ?r1"
      "set (pattern rec') = sdp_uuid_to_uuid128 ` prof_uuid ` set ps \<union> set (pattern ?r1)"
    using Cons.IH [OF pattern_add_inv [OF Cons.prems(1) p]] Cons.prems(2) by auto
  show ?case
    using e al IH pattern_add_set [OF Cons.prems(1) p] entry_seq [of "profile_elem p"]
    by (auto simp: dtd_profile_elem)
qed simp

lemma profile_walk_elems:
  "\<forall>p \<in> set ps. prof_uuid p \<noteq> UUID_NONE \<Longrightarrow> profile_walk (map profile_elem ps) = Ret ps"
  by (induction ps) (auto simp: profile_elem_def uuid_elem_def u16_elem_def val_uuid_def val_num_def SDP_IS_UUID_def)

lemma set_profile_effect:
  assumes "record_inv rec" and "sdp_data_get rec SDP_ATTR_PFILE_DESC_LIST = None" and "ps \<noteq> []"
    and "\<forall>p \<in> set ps. uuid_ok (prof_uuid p) \<and> prof_uuid p \<noteq> UUID_NONE"
  obtains rec' where "sdp_set_profile_descs rec (map Some ps) = Ret (0, rec')" "record_inv rec'"
    "sdp_get_profile_descs rec' = Ret (Some ps)"
    "set (pattern rec') = sdp_uuid_to_uuid128 ` prof_uuid ` set ps \<union> set (pattern rec)"
proof -
  obtain rec1 es where l: "profile_loop rec (map Some ps) = Ret (0, rec1, es)" "record_inv rec1"
      "list_all2 entry_elem es (map profile_elem ps)" "sdp_data_get rec1 = sdp_data_get rec"
      "set (pattern rec1) = sdp_uuid_to_uuid128 ` prof_uuid ` set ps \<union> set (pattern rec)"
    using profile_loop_elems [OF assms(1,4)] by blast
  define d where "d = Data SDP_SEQ8 0 (VSeq (map profile_elem ps)) (2 + sum_list (map unitSize (map profile_elem ps)))"
  let ?rec = "snd (sdp_attr_add rec1 SDP_ATTR_PFILE_DESC_LIST d)"
  have r: "sdp_set_profile_descs rec (map Some ps) = Ret (0, ?rec)"
    using l(1) sdp_seq_alloc_list [OF l(3)] by (simp add: sdp_set_profile_descs_def d_def)
  have "sdp_data_get ?rec SDP_ATTR_PFILE_DESC_LIST = Some (set_attrId SDP_ATTR_PFILE_DESC_LIST d)"
    using assms(2) l(4) by (simp add: attr_add_get)
  then have "sdp_get_profile_descs ?rec = Ret (Some ps)"
    using profile_walk_elems [of ps] assms(3,4) by (simp add: sdp_get_profile_descs_def d_def val_dataseq_def)
  with that r attr_add_inv [OF l(2)] l(5) show thesis by simp
qed

subsection \<open>Properties\<close>

text \<open>
  C9: a list of UUIDs stored with \<open>sdp_set_uuidseq_attr\<close> (the class id list, the browse
  groups) is what \<open>sdp_get_uuidseq_attr\<close> reads back, the other attributes stay, the
  record stays well formed, and its pattern gains the UUIDs in 128-bit form.
\<close>

theorem uuid_list_set_get:
  assumes "record_inv rec" and "us \<noteq> []" and "\<forall>u \<in> set us. uuid_ok u \<and> u \<noteq> UUID_NONE"
  shows "\<exists>rec'. sdp_set_uuidseq_attr rec aid (map Some us) = Ret (0, rec') \<and> record_inv rec'
    \<and> sdp_get_uuidseq_attr rec' aid = Ret (Some us)
    \<and> (\<forall>b. b \<noteq> aid \<longrightarrow> sdp_data_get rec' b = sdp_data_get rec b)
    \<and> set (pattern rec') = sdp_uuid_to_uuid128 ` set us \<union> set (pattern rec)"
proof -
  obtain rec' d where r: "sdp_set_uuidseq_attr rec aid (map Some us) = Ret (0, rec')"
    "record_inv rec'" "set (pattern rec') = sdp_uuid_to_uuid128 ` set us \<union> set (pattern rec)"
    "sdp_data_get rec' = (sdp_data_get rec)(aid \<mapsto> set_attrId aid d)"
    "dtd d = SDP_SEQ8" "val d = VSeq (map uuid_elem us)"
    using set_uuidseq_effect [OF assms] by metis
  have "sdp_get_uuidseq_attr rec' aid = Ret (Some us)"
    using r uuid_walk_elems [of us] assms(3) by (simp add: sdp_get_uuidseq_attr_def val_dataseq_def)
  with r show ?thesis by simp
qed

theorem uuid_list_set_get_witness:
  "\<exists>rec'. sdp_set_uuidseq_attr sdp_record_alloc 1 (map Some [UUID16 0x1101, UUID128 bluetooth_base_uuid]) = Ret (0, rec')
    \<and> sdp_get_uuidseq_attr rec' 1 = Ret (Some [UUID16 0x1101, UUID128 bluetooth_base_uuid])"
  using uuid_list_set_get [of sdp_record_alloc "[UUID16 0x1101, UUID128 bluetooth_base_uuid]" 1] record_inv_alloc
  by (auto simp: bluetooth_base_uuid_def)

text \<open>
  Profile descriptors set on a record that has none are read back with their versions,
  and their UUIDs enter the pattern.
\<close>

theorem profile_descs_set_get:
  assumes "record_inv rec" and "sdp_data_get rec SDP_ATTR_PFILE_DESC_LIST = None" and "ps \<noteq> []"
    and "\<forall>p \<in> set ps. uuid_ok (prof_uuid p) \<and> prof_uuid p \<noteq> UUID_NONE"
  shows "\<exists>rec'. sdp_set_profile_descs rec (map Some ps) = Ret (0, rec') \<and> record_inv rec'
    \<and> sdp_get_profile_descs rec' = Ret (Some ps)
    \<and> set (pattern rec') = sdp_uuid_to_uuid128 ` prof_uuid ` set ps \<union> set (pattern rec)"
  using set_profile_effect [OF assms] by metis

theorem profile_descs_set_get_witness:
  "\<exists>rec'. sdp_set_profile_descs sdp_record_alloc (map Some [\<lparr>prof_uuid = UUID16 0x1108, version = 0x102\<rparr>]) = Ret (0, rec')
    \<and> sdp_get_profile_descs rec' = Ret (Some [\<lparr>prof_uuid = UUID16 0x1108, version = 0x102\<rparr>])"
  using profile_descs_set_get [of sdp_record_alloc "[\<lparr>prof_uuid = UUID16 0x1108, version = 0x102\<rparr>]"] record_inv_alloc
  by auto

text \<open>
  The language list is stored and read back when the record had none; when it had one,
  \<open>sdp_set_lang_attr\<close> leaves the record as it is and still answers 0, although it is
  documented to replace the value.
\<close>

theorem lang_list_set_once:
  assumes "record_inv rec"
  shows "case sdp_data_get rec SDP_ATTR_LANG_BASE_ATTR_ID_LIST of
      None \<Rightarrow> \<exists>rec'. sdp_set_lang_attr rec (map Some ls) = Ret (0, rec') \<and> record_inv rec'
                \<and> sdp_get_lang_attr rec' = Ret (Some ls)
    | Some _ \<Rightarrow> sdp_set_lang_attr rec (map Some ls) = Ret (0, rec)"
proof (cases "sdp_data_get rec SDP_ATTR_LANG_BASE_ATTR_ID_LIST")
  case None
  obtain rec' where "sdp_set_lang_attr rec (map Some ls) = Ret (0, rec')" "record_inv rec'"
    "sdp_get_lang_attr rec' = Ret (Some ls)"
    by (rule set_lang_effect [OF assms None])
  with None show ?thesis by simp
qed (simp add: set_lang_keeps)

theorem lang_list_set_once_witness:
  "\<exists>rec'. sdp_set_lang_attr sdp_record_alloc (map Some [\<lparr>code_ISO639 = 0x656e, encoding = 106, base_offset = 0x100\<rparr>])
      = Ret (0, rec')
    \<and> sdp_get_lang_attr rec' = Ret (Some [\<lparr>code_ISO639 = 0x656e, encoding = 106, base_offset = 0x100\<rparr>])"
  using lang_list_set_once [of sdp_record_alloc "[\<lparr>code_ISO639 = 0x656e, encoding = 106, base_offset = 0x100\<rparr>]"]
    record_inv_alloc
  by auto

end
