(* ===== verification/SDP_Record_PDU.thy ===== *)
theory SDP_Record_PDU
  imports SDP_Record
begin

section \<open>The PDU form of a record\<close>

text \<open>
  Appending attributes to the growing outer sequence of a record PDU (\<open>libs/src/sdp.c\<close>,
  \<open>sdp_append_to_buf\<close> to \<open>sdp_gen_record_pdu\<close>), and the bytes that result.
\<close>

subsection \<open>Operations\<close>

text \<open>
  \<open>sdp_append_to_buf\<close> in its five steps. \<open>realloc\<close> is taken to move the block, so that
  the pointer \<open>p\<close> read before it is dead afterwards; what the new bytes hold is not
  specified by C, and they are written before they are read.
\<close>

abbreviation SDP_PDU_CHUNK_SIZE :: nat where "SDP_PDU_CHUNK_SIZE \<equiv> 1024"

definition pdu_grow :: "sdp_buf \<Rightarrow> nat \<Rightarrow> sdp_buf" where
  "pdu_grow dst len =
     (if buf_size dst < data_size dst + len
      then dst\<lparr>buf_bytes := buf_bytes dst
                 @ replicate (SDP_PDU_CHUNK_SIZE * (len div SDP_PDU_CHUNK_SIZE + 1)) 0\<rparr>
      else dst)"

definition pdu_open :: "sdp_buf \<Rightarrow> nat \<Rightarrow> byte \<Rightarrow> sdp_buf run" where
  "pdu_open dst len t =
     (if data_size dst = 0 \<and> t = 0
      then if buf_size dst < data_size dst + len then Fault
           else run_bind (buf_put dst 0 [SDP_SEQ8]) (\<lambda>b. Ret (b\<lparr>data_size := data_size b + 1 + 1\<rparr>))
      else Ret (pdu_grow dst len))"

definition pdu_widen :: "sdp_buf \<Rightarrow> sdp_buf run" where
  "pdu_widen dst =
     run_bind (buf_get dst 0) (\<lambda>t.
       if 255 < data_size dst \<and> t = SDP_SEQ8
       then run_bind (buf_put dst 3 (drop 2 (buf_used dst))) (\<lambda>b1.
            run_bind (buf_put b1 0 [SDP_SEQ16]) (\<lambda>b2.
              Ret (b2\<lparr>data_size := data_size b2 + 1\<rparr>)))
       else Ret dst)"

definition pdu_set_len :: "sdp_buf \<Rightarrow> sdp_buf run" where
  "pdu_set_len dst =
     run_bind (buf_get dst 0) (\<lambda>t.
       if t = SDP_SEQ8 then buf_put dst 1 [of_nat (data_size dst) - 2]
       else if t = SDP_SEQ16 then buf_put dst 1 (put_be 2 (unat (of_nat (data_size dst) - 3 :: u32)))
       else if t = SDP_SEQ32 then buf_put dst 1 (put_be 4 (unat (of_nat (data_size dst) - 5 :: u32)))
       else Ret dst)"

definition sdp_append_to_buf :: "sdp_buf \<Rightarrow> byte list \<Rightarrow> sdp_buf run" where
  "sdp_append_to_buf dst data =
     run_bind (buf_get dst 0) (\<lambda>t.
     run_bind (pdu_open dst (length data) t) (\<lambda>b1.
     run_bind (buf_append b1 data) (\<lambda>b2.
     run_bind (pdu_widen b2) pdu_set_len)))"

text \<open>The attribute is generated into an array of 256 bytes on the stack.\<close>

definition stack_buf :: sdp_buf where
  "stack_buf = \<lparr>buf_bytes = replicate 256 0, data_size = 0\<rparr>"

definition sdp_append_to_pdu :: "sdp_buf \<Rightarrow> sdp_data \<Rightarrow> sdp_buf run" where
  "sdp_append_to_pdu pdu d =
     run_bind (sdp_set_attrid stack_buf (attrId d)) (\<lambda>a1.
     run_bind (sdp_gen_pdu a1 d) (\<lambda>(a2, _).
       sdp_append_to_buf pdu (buf_used a2)))"

definition sdp_attr_pdu :: "sdp_data \<Rightarrow> sdp_buf \<Rightarrow> sdp_buf run" where
  "sdp_attr_pdu value udata = sdp_append_to_pdu udata value"

definition sdp_gen_record_pdu :: "sdp_record \<Rightarrow> sdp_buf run" where
  "sdp_gen_record_pdu rec =
     sdp_list_foreach (attrlist rec) sdp_attr_pdu
       \<lparr>buf_bytes = replicate SDP_PDU_CHUNK_SIZE 0, data_size = 0\<rparr>"

text \<open>
  \<open>gen_dataseq_pdu\<close>: the bytes it copies to \<open>dst\<close> and the length it returns. \<open>values\<close> is
  what the list entries point to (for UUIDs, their \<open>value\<close> member).
\<close>

definition gen_dataseq_pdu :: "sdp_val list \<Rightarrow> byte \<Rightarrow> (byte list \<times> nat) run" where
  "gen_dataseq_pdu values t =
     run_bind (sdp_seq_alloc (map (\<lambda>v. (t, Some v)) values)) (\<lambda>r.
       case r of
         None \<Rightarrow> Fault
       | Some d \<Rightarrow> run_bind (sdp_gen_pdu stack_buf d) (\<lambda>(b, n). Ret (buf_used b, n)))"

subsection \<open>What the PDU of a record is\<close>

definition attr_enc :: "sdp_data \<Rightarrow> byte list" where
  "attr_enc d = SDP_UINT16 # put_be 2 (unat (attrId d)) @ sdp_enc d"

lemma buf_used_splice: "fits b bs \<Longrightarrow> buf_used (buf_splice b bs) = buf_used b @ bs"
  by (simp add: buf_used_def buf_splice_def fits_def)

lemma append_to_pdu_eq:
  assumes "gen_ok d"
  shows "sdp_append_to_pdu pdu d
       = (if length (attr_enc d) \<le> 256 then sdp_append_to_buf pdu (attr_enc d) else Fault)"
proof -
  let ?h = "SDP_UINT16 # put_be 2 (unat (attrId d))"
  have h: "sdp_set_attrid stack_buf (attrId d) = Ret (buf_splice stack_buf ?h)"
    by (simp add: sdp_set_attrid_def stack_buf_def buf_put_def buf_splice_def)
  have f: "fits stack_buf ?h" by (simp add: fits_def stack_buf_def)
  have e: "fits (buf_splice stack_buf ?h) (sdp_enc d) \<longleftrightarrow> length (attr_enc d) \<le> 256"
    using fits_append [of stack_buf ?h "sdp_enc d"] f by (simp add: attr_enc_def fits_def stack_buf_def)
  have u: "buf_used stack_buf = []" by (simp add: buf_used_def stack_buf_def)
  show ?thesis
    using assms f u e buf_used_splice [of stack_buf ?h]
    by (simp add: sdp_append_to_pdu_def h gen_pdu_refines(1) buf_used_splice attr_enc_def)
qed

text \<open>The image of an outer sequence: its size field is one byte while the whole fits in 255.\<close>

definition seq_image :: "byte list \<Rightarrow> byte list" where
  "seq_image body =
     (if body = [] then []
      else if length body + 2 \<le> 255 then SDP_SEQ8 # put_be 1 (length body) @ body
      else SDP_SEQ16 # put_be 2 (length body) @ body)"

definition seq_buf :: "sdp_buf \<Rightarrow> byte list \<Rightarrow> bool" where
  "seq_buf b body \<longleftrightarrow>
     (\<exists>rest. b = \<lparr>buf_bytes = seq_image body @ rest, data_size = length (seq_image body)\<rparr>
        \<and> SDP_PDU_CHUNK_SIZE \<le> length (seq_image body @ rest) \<and> (body = [] \<longrightarrow> hd rest = 0))"
lemma buf_append_at:
  "length data \<le> length rest \<Longrightarrow>
   buf_append \<lparr>buf_bytes = pre @ rest, data_size = length pre\<rparr> data
   = Ret \<lparr>buf_bytes = pre @ data @ drop (length data) rest, data_size = length pre + length data\<rparr>"
  by (simp add: buf_append_def buf_put_def)

text \<open>The last two steps turn a sequence with stale header bytes into its image.\<close>

lemma pdu_finish8:
  assumes "c \<noteq> []" and "255 < 2 + length c \<longrightarrow> r \<noteq> []"
  obtains r' where
    "run_bind (pdu_widen \<lparr>buf_bytes = SDP_SEQ8 # x # c @ r, data_size = 2 + length c\<rparr>) pdu_set_len
     = Ret \<lparr>buf_bytes = seq_image c @ r', data_size = length (seq_image c)\<rparr>"
    and "length (seq_image c @ r') = length (SDP_SEQ8 # x # c @ r)"
proof (cases "255 < 2 + length c")
  case True
  with assms obtain a c' y r' where c: "c = a # c'" and r: "r = y # r'"
    by (meson neq_Nil_conv)
  have d: "drop (4 + length c') (SDP_SEQ8 # x # a # c' @ y # r') = r'"
    by (simp add: eval_nat_numeral)
  have "pdu_widen \<lparr>buf_bytes = SDP_SEQ8 # x # c @ r, data_size = 2 + length c\<rparr>
      = Ret \<lparr>buf_bytes = SDP_SEQ16 # x # a # c @ r', data_size = 3 + length c\<rparr>"
    using True d by (simp add: c r pdu_widen_def buf_get_def buf_put_def buf_used_def)
  moreover have "unat (of_nat (3 + length c) - 3 :: u32) = length c mod 4294967296"
    by (simp add: unat_of_nat)
  moreover have "put_be 2 (length c mod 4294967296) = put_be 2 (length c)"
    by (rule put_be_cong) (simp add: mod_mod_cancel)
  ultimately have
    "run_bind (pdu_widen \<lparr>buf_bytes = SDP_SEQ8 # x # c @ r, data_size = 2 + length c\<rparr>) pdu_set_len
     = Ret \<lparr>buf_bytes = seq_image c @ r', data_size = length (seq_image c)\<rparr>"
    using True assms(1) by (simp add: pdu_set_len_def buf_get_def buf_put_def seq_image_def)
  then show thesis using True by (intro that) (simp_all add: seq_image_def assms(1) r)
next
  case False
  then have "run_bind (pdu_widen \<lparr>buf_bytes = SDP_SEQ8 # x # c @ r, data_size = 2 + length c\<rparr>) pdu_set_len
     = Ret \<lparr>buf_bytes = seq_image c @ r, data_size = length (seq_image c)\<rparr>"
    using assms(1) by (simp add: pdu_widen_def pdu_set_len_def buf_get_def buf_put_def seq_image_def)
  then show thesis using False by (intro that) (simp_all add: seq_image_def assms(1))
qed

lemma pdu_finish16:
  assumes "253 < length c"
  shows "run_bind (pdu_widen \<lparr>buf_bytes = SDP_SEQ16 # x # y # c @ r, data_size = 3 + length c\<rparr>) pdu_set_len
     = Ret \<lparr>buf_bytes = seq_image c @ r, data_size = length (seq_image c)\<rparr>"
proof -
  have "unat (of_nat (3 + length c) - 3 :: u32) = length c mod 4294967296"
    by (simp add: unat_of_nat)
  moreover have "put_be 2 (length c mod 4294967296) = put_be 2 (length c)"
    by (rule put_be_cong) (simp add: mod_mod_cancel)
  ultimately show ?thesis
    using assms by (auto simp add: pdu_widen_def pdu_set_len_def buf_get_def buf_put_def seq_image_def)
qed

lemma append_open:
  assumes sz: "SDP_PDU_CHUNK_SIZE \<le> length rest" and "hd rest = 0" and "data \<noteq> []" "length data \<le> 256"
  shows "\<exists>b'. sdp_append_to_buf \<lparr>buf_bytes = rest, data_size = 0\<rparr> data = Ret b' \<and> seq_buf b' data"
proof -
  obtain x rest' where r: "rest = 0 # x # rest'"
    using assms(1,2) by (cases rest; cases "tl rest") auto
  have "buf_append \<lparr>buf_bytes = [SDP_SEQ8, x] @ rest', data_size = length [SDP_SEQ8, x]\<rparr> data
    = Ret \<lparr>buf_bytes = [SDP_SEQ8, x] @ data @ drop (length data) rest', data_size = length [SDP_SEQ8, x] + length data\<rparr>"
    using assms r by (intro buf_append_at) simp
  moreover obtain r' where
    "run_bind (pdu_widen \<lparr>buf_bytes = SDP_SEQ8 # x # data @ drop (length data) rest', data_size = 2 + length data\<rparr>) pdu_set_len
     = Ret \<lparr>buf_bytes = seq_image data @ r', data_size = length (seq_image data)\<rparr>"
    "length (seq_image data @ r') = length (SDP_SEQ8 # x # data @ drop (length data) rest')"
    using assms r by (elim pdu_finish8 [rotated 2]) auto
  ultimately show ?thesis
    using assms
    by (auto simp: r sdp_append_to_buf_def pdu_open_def buf_get_def buf_put_def seq_buf_def)
qed

lemma pdu_open_grow:
  assumes "img \<noteq> []" and "length data \<le> 256" and "SDP_PDU_CHUNK_SIZE \<le> length (img @ rest)"
  obtains rest' where
    "\<forall>t. pdu_open \<lparr>buf_bytes = img @ rest, data_size = length img\<rparr> (length data) t
     = Ret \<lparr>buf_bytes = img @ rest', data_size = length img\<rparr>"
    "length data \<le> length rest'" "SDP_PDU_CHUNK_SIZE \<le> length (img @ rest')"
proof (cases "length rest < length data")
  case True
  show thesis
    by (rule that [of "rest @ replicate (SDP_PDU_CHUNK_SIZE * (length data div SDP_PDU_CHUNK_SIZE + 1)) 0"])
      (use assms True in \<open>simp_all add: pdu_open_def pdu_grow_def\<close>)
next
  case False
  with assms that [of rest] show thesis by (simp add: pdu_open_def pdu_grow_def)
qed

lemma finish_after_append:
  assumes "body \<noteq> []" and sz: "SDP_PDU_CHUNK_SIZE \<le> length (seq_image body @ data @ r)" and "length data \<le> 256"
  shows "\<exists>r'. run_bind (pdu_widen \<lparr>buf_bytes = seq_image body @ data @ r,
                                    data_size = length (seq_image body) + length data\<rparr>) pdu_set_len
      = Ret \<lparr>buf_bytes = seq_image (body @ data) @ r', data_size = length (seq_image (body @ data))\<rparr>
      \<and> length (seq_image (body @ data) @ r') = length (seq_image body @ data @ r)"
proof (cases "length body \<le> 253")
  case True
  then have img: "seq_image body = SDP_SEQ8 # of_nat (length body) # body"
    using assms(1) by (simp add: seq_image_def)
  then obtain r' where
    "run_bind (pdu_widen \<lparr>buf_bytes = SDP_SEQ8 # of_nat (length body) # (body @ data) @ r, data_size = 2 + length (body @ data)\<rparr>) pdu_set_len
     = Ret \<lparr>buf_bytes = seq_image (body @ data) @ r', data_size = length (seq_image (body @ data))\<rparr>"
    "length (seq_image (body @ data) @ r') = length (SDP_SEQ8 # of_nat (length body) # (body @ data) @ r)"
    using assms True by (elim pdu_finish8 [rotated 2]) auto
  then show ?thesis
    by (intro exI [of _ r']) (simp add: img)
next
  case False
  obtain x y where "put_be 2 (length body) = [x, y]"
    by (simp add: numeral_2_eq_2)
  with False have img: "seq_image body = SDP_SEQ16 # x # y # body"
    by (auto simp: seq_image_def)
  have "length (seq_image (body @ data)) = 3 + length (body @ data)"
    using False by (auto simp: seq_image_def)
  with False show ?thesis
    using pdu_finish16 [of "body @ data" x y r]
    by (intro exI [of _ r]) (simp add: img numeral_3_eq_3)
qed

lemma append_more:
  assumes "body \<noteq> []" and sz: "SDP_PDU_CHUNK_SIZE \<le> length (seq_image body @ rest)"
    and len: "length data \<le> 256"
  shows "\<exists>b'. sdp_append_to_buf \<lparr>buf_bytes = seq_image body @ rest, data_size = length (seq_image body)\<rparr> data
      = Ret b' \<and> seq_buf b' (body @ data)"
proof -
  let ?img = "seq_image body"
  have img: "?img \<noteq> []" using assms(1) by (simp add: seq_image_def)
  obtain r1 where open': "\<forall>t. pdu_open \<lparr>buf_bytes = ?img @ rest, data_size = length ?img\<rparr> (length data) t
      = Ret \<lparr>buf_bytes = ?img @ r1, data_size = length ?img\<rparr>"
    and r1: "length data \<le> length r1" "SDP_PDU_CHUNK_SIZE \<le> length (?img @ r1)"
    using img len sz by (rule pdu_open_grow)
  let ?r2 = "drop (length data) r1"
  have sz2: "SDP_PDU_CHUNK_SIZE \<le> length (?img @ data @ ?r2)" using r1 by simp
  obtain r' where fin: "run_bind (pdu_widen \<lparr>buf_bytes = ?img @ data @ ?r2, data_size = length ?img + length data\<rparr>) pdu_set_len
      = Ret \<lparr>buf_bytes = seq_image (body @ data) @ r', data_size = length (seq_image (body @ data))\<rparr>"
    and l: "length (seq_image (body @ data) @ r') = length (?img @ data @ ?r2)"
    using finish_after_append [OF assms(1) sz2 len] by blast
  have get: "\<exists>t. buf_get \<lparr>buf_bytes = ?img @ rest, data_size = length ?img\<rparr> 0 = Ret t"
    using img by (simp add: buf_get_def)
  have "sdp_append_to_buf \<lparr>buf_bytes = ?img @ rest, data_size = length ?img\<rparr> data
      = Ret \<lparr>buf_bytes = seq_image (body @ data) @ r', data_size = length (seq_image (body @ data))\<rparr>"
    using get open' fin buf_append_at [OF r1(1), of ?img]
    by (auto simp only: sdp_append_to_buf_def run_bind.simps)
  then show ?thesis
    using sz2 l assms(1) unfolding seq_buf_def by auto
qed

lemma append_to_buf_seq:
  assumes "seq_buf b body" and "data \<noteq> []" and "length data \<le> 256"
  shows "\<exists>b'. sdp_append_to_buf b data = Ret b' \<and> seq_buf b' (body @ data)"
proof -
  obtain rest where b: "b = \<lparr>buf_bytes = seq_image body @ rest, data_size = length (seq_image body)\<rparr>"
    and sz: "SDP_PDU_CHUNK_SIZE \<le> length (seq_image body @ rest)" and h: "body = [] \<longrightarrow> hd rest = 0"
    using assms(1) unfolding seq_buf_def by blast
  show ?thesis
  proof (cases "body = []")
    case True
    then have "seq_image body = []" by (simp add: seq_image_def)
    with True append_open [of rest data] sz h assms b show ?thesis by simp
  next
    case False
    with append_more [of body rest data] sz assms(3) b show ?thesis by simp
  qed
qed

definition attrs_fit :: "sdp_data list \<Rightarrow> bool" where
  "attrs_fit ds \<longleftrightarrow> (\<forall>d \<in> set ds. length (attr_enc d) \<le> 256)"

lemma foreach_attr_pdu:
  assumes "seq_buf b body" and "\<forall>d \<in> set ds. gen_ok d" and "attrs_fit ds"
  shows "\<exists>b'. sdp_list_foreach ds sdp_attr_pdu b = Ret b' \<and> seq_buf b' (body @ concat (map attr_enc ds))"
  using assms
proof (induction ds arbitrary: b body)
  case (Cons d ds)
  have ne: "attr_enc d \<noteq> []" and fit: "length (attr_enc d) \<le> 256" "attrs_fit ds"
    using Cons.prems by (simp_all add: attr_enc_def attrs_fit_def)
  then obtain b1 where b1: "sdp_append_to_buf b (attr_enc d) = Ret b1" "seq_buf b1 (body @ attr_enc d)"
    using append_to_buf_seq Cons.prems by blast
  then have "sdp_attr_pdu d b = Ret b1"
    using fit Cons.prems append_to_pdu_eq [of d b] by (simp add: sdp_attr_pdu_def)
  then show ?case
    using Cons.IH [OF b1(2)] Cons.prems fit by simp
qed simp

lemma foreach_attr_pdu_overflow:
  assumes "seq_buf b body" and "\<forall>d \<in> set ds. gen_ok d" and "\<not> attrs_fit ds"
  shows "sdp_list_foreach ds sdp_attr_pdu b = Fault"
  using assms
proof (induction ds arbitrary: b body)
  case (Cons d ds)
  show ?case
  proof (cases "length (attr_enc d) \<le> 256")
    case True
    then obtain b1 where b1: "sdp_attr_pdu d b = Ret b1" "seq_buf b1 (body @ attr_enc d)"
      using foreach_attr_pdu [of b body "[d]"] Cons.prems by (auto simp: attrs_fit_def)
    with True Cons.IH [OF b1(2)] Cons.prems show ?thesis by (simp add: attrs_fit_def)
  next
    case False
    then show ?thesis
      using Cons.prems append_to_pdu_eq [of d b] by (simp add: sdp_attr_pdu_def)
  qed
qed (simp add: attrs_fit_def)

lemma gen_record_pdu_eq:
  assumes "\<forall>d \<in> set (attrlist rec). gen_ok d"
  shows "attrs_fit (attrlist rec) \<Longrightarrow>
      \<exists>b. sdp_gen_record_pdu rec = Ret b \<and> buf_used b = seq_image (concat (map attr_enc (attrlist rec)))"
    and "\<not> attrs_fit (attrlist rec) \<Longrightarrow> sdp_gen_record_pdu rec = Fault"
proof -
  have b0: "seq_buf \<lparr>buf_bytes = replicate SDP_PDU_CHUNK_SIZE 0, data_size = 0\<rparr> []"
    by (simp add: seq_buf_def seq_image_def)
  have used: "buf_used b = seq_image body" if "seq_buf b body" for b body
    using that by (auto simp: seq_buf_def buf_used_def)
  show "attrs_fit (attrlist rec) \<Longrightarrow>
      \<exists>b. sdp_gen_record_pdu rec = Ret b \<and> buf_used b = seq_image (concat (map attr_enc (attrlist rec)))"
    using foreach_attr_pdu [OF b0 assms] used unfolding sdp_gen_record_pdu_def by fastforce
  show "\<not> attrs_fit (attrlist rec) \<Longrightarrow> sdp_gen_record_pdu rec = Fault"
    using foreach_attr_pdu_overflow [OF b0 assms] by (simp add: sdp_gen_record_pdu_def)
qed

subsection \<open>Properties\<close>

text \<open>
  C5: the PDU of a record is the data element sequence of its attributes, each as a 16-bit
  id followed by the value, in the order of the list and with the exact size in the
  header, whether the one-byte header has to be widened on the way or not; and an attribute
  whose image is longer than 256 bytes overflows the array on the stack that it is
  generated into.
\<close>

theorem record_pdu_exact:
  assumes "\<forall>d \<in> set (attrlist rec). gen_ok d"
  shows "if \<forall>d \<in> set (attrlist rec). 3 + length (sdp_enc d) \<le> 256
    then \<exists>b. sdp_gen_record_pdu rec = Ret b
           \<and> buf_used b = seq_image (concat (map (\<lambda>d. SDP_UINT16 # put_be 2 (unat (attrId d)) @ sdp_enc d) (attrlist rec)))
    else sdp_gen_record_pdu rec = Fault"
proof -
  have l: "length (attr_enc d) = 3 + length (sdp_enc d)" for d by (simp add: attr_enc_def)
  have e: "(\<lambda>d. SDP_UINT16 # put_be 2 (unat (attrId d)) @ sdp_enc d) = attr_enc"
    by (simp add: attr_enc_def fun_eq_iff)
  have "(\<forall>d \<in> set (attrlist rec). 3 + length (sdp_enc d) \<le> 256) = attrs_fit (attrlist rec)"
    by (simp add: attrs_fit_def l)
  then show ?thesis
    unfolding e using gen_record_pdu_eq [OF assms] by simp
qed

theorem record_pdu_exact_witness:
  "\<exists>b. sdp_gen_record_pdu (sdp_record_alloc\<lparr>attrlist := [Data SDP_UINT8 5 (VNum 7) 2]\<rparr>) = Ret b
     \<and> buf_used b = [SDP_SEQ8, 5, SDP_UINT16, 0, 5, SDP_UINT8, 7]"
  using record_pdu_exact [of "sdp_record_alloc\<lparr>attrlist := [Data SDP_UINT8 5 (VNum 7) 2]\<rparr>"]
  by (simp add: is_str_def is_seq_alt_def scalar_src_def scalar_bytes_def seq_image_def put_be_small)

end
