(* ===== verification/SDP_Extract.thy ===== *)
theory SDP_Extract
  imports SDP_Record_PDU
begin

section \<open>Parsing data elements and records\<close>

text \<open>
  The parsers of \<open>libs/src/sdp.c\<close> that run on bytes received from a peer. A pointer into
  the packet is the list of bytes from there to the end of the object it points into, so
  a read past the object is a \<open>Fault\<close>; \<open>bufsize\<close> is the count the code keeps of what is
  left. Where the source compares that \<open>int\<close> with a \<open>sizeof\<close>, the comparison is unsigned
  and a negative count passes (\<open>short_of\<close>).

  The loop of \<open>extract_seq\<close> does not make progress on every element, so the recursion
  carries fuel, and running out of it is \<open>NoFuel\<close>.
\<close>

subsection \<open>Scalars\<close>

definition short_of :: "int \<Rightarrow> nat \<Rightarrow> bool" where
  "short_of bufsize n \<longleftrightarrow> 0 \<le> bufsize \<and> bufsize < int n"

definition rd :: "nat \<Rightarrow> byte list \<Rightarrow> byte list run" where
  "rd n p = (if n \<le> length p then Ret (take n p) else Fault)"

text \<open>The status -1 is \<open>None\<close>; \<open>scanned\<close> is advanced past the type byte even then.\<close>

definition sdp_uuid_extract_safe ::
    "byte list \<Rightarrow> int \<Rightarrow> int \<Rightarrow> (sdp_uuid option \<times> int) run" where
  "sdp_uuid_extract_safe p bufsize scanned =
     (if short_of bufsize 1 then Ret (None, scanned)
      else run_bind (rd 1 p) (\<lambda>h.
        let type = hd h; q = drop 1 p; b = bufsize - 1; s = scanned + 1
        in if \<not> SDP_IS_UUID type then Ret (None, scanned)
           else if type = SDP_UUID16 then
             (if short_of b 2 then Ret (None, s)
              else run_bind (rd 2 q) (\<lambda>v. Ret (Some (sdp_uuid16_create (of_nat (get_be v))), s + 2)))
           else if type = SDP_UUID32 then
             (if short_of b 4 then Ret (None, s)
              else run_bind (rd 4 q) (\<lambda>v. Ret (Some (sdp_uuid32_create (of_nat (get_be v))), s + 4)))
           else
             (if short_of b 16 then Ret (None, s)
              else run_bind (rd 16 q) (\<lambda>v. Ret (Some (sdp_uuid128_create v), s + 16)))))"

text \<open>The integer branches: \<open>n\<close> bytes in network order into the zeroed union.\<close>

definition extract_num :: "byte \<Rightarrow> nat \<Rightarrow> byte list \<Rightarrow> int \<Rightarrow> int \<Rightarrow> (sdp_data option \<times> int) run" where
  "extract_num t n q b len =
     (if short_of b n then Ret (None, len)
      else run_bind (rd n q) (\<lambda>v. Ret (Some (Data t 0 (VNum (of_nat (get_be v))) 0), len + int n)))"

definition extract_int :: "byte list \<Rightarrow> int \<Rightarrow> int \<Rightarrow> (sdp_data option \<times> int) run" where
  "extract_int p bufsize len =
     (if short_of bufsize 1 then Ret (None, len)
      else run_bind (rd 1 p) (\<lambda>h.
        let t = hd h; q = drop 1 p; b = bufsize - 1; l = len + 1
        in if t = SDP_DATA_NIL then Ret (Some (Data t 0 (VNum 0) 0), l)
           else if t \<in> {SDP_BOOL, SDP_INT8, SDP_UINT8} then extract_num t 1 q b l
           else if t \<in> {SDP_INT16, SDP_UINT16} then extract_num t 2 q b l
           else if t \<in> {SDP_INT32, SDP_UINT32} then extract_num t 4 q b l
           else if t \<in> {SDP_INT64, SDP_UINT64} then extract_num t 8 q b l
           else if t \<in> {SDP_INT128, SDP_UINT128} then
             (if short_of b 16 then Ret (None, l)
              else run_bind (rd 16 q) (\<lambda>v. Ret (Some (Data t 0 (VNum128 (ntoh128 v)) 0), l + 16)))
           else Ret (None, l)))"

definition extract_uuid ::
    "byte list \<Rightarrow> int \<Rightarrow> int \<Rightarrow> sdp_record option \<Rightarrow> (sdp_data option \<times> int \<times> sdp_record option) run" where
  "extract_uuid p bufsize len rec =
     run_bind (sdp_uuid_extract_safe p bufsize len) (\<lambda>(r, len').
       case r of
         None \<Rightarrow> Ret (None, len', rec)
       | Some u \<Rightarrow>
           run_bind (rd 1 p) (\<lambda>h.
             Ret (Some (Data (hd h) 0 (VUuid u) 0), len',
                  map_option (\<lambda>r. sdp_pattern_add_uuid r u) rec)))"

text \<open>
  \<open>extract_str\<close>. The 16-bit branch adds \<open>n\<close> to \<open>*len\<close> together with the size of the
  length field, and the common end adds it once more.
\<close>

definition extract_str_body ::
    "byte \<Rightarrow> nat \<Rightarrow> byte list \<Rightarrow> int \<Rightarrow> int \<Rightarrow> (sdp_data option \<times> int) run" where
  "extract_str_body t n q b len =
     (if b < int n then Ret (None, len)
      else run_bind (rd n q) (\<lambda>s. Ret (Some (Data t 0 (VStr (s @ [0])) (n + 1)), len + int n)))"

definition extract_str :: "byte list \<Rightarrow> int \<Rightarrow> int \<Rightarrow> (sdp_data option \<times> int) run" where
  "extract_str p bufsize len =
     (if short_of bufsize 1 then Ret (None, len)
      else run_bind (rd 1 p) (\<lambda>h.
        let t = hd h; q = drop 1 p; b = bufsize - 1; l = len + 1
        in if t \<in> {SDP_TEXT_STR8, SDP_URL_STR8} then
             (if short_of b 1 then Ret (None, l)
              else run_bind (rd 1 q) (\<lambda>v. extract_str_body t (get_be v) (drop 1 q) (b - 1) (l + 1)))
           else if t \<in> {SDP_TEXT_STR16, SDP_URL_STR16} then
             (if short_of b 2 then Ret (None, l)
              else run_bind (rd 2 q) (\<lambda>v.
                     extract_str_body t (get_be v) (drop 2 q) (b - 2) (l + (2 + int (get_be v)))))
           else Ret (None, l)))"

subsection \<open>Sequences and elements\<close>

text \<open>
  The out-parameters \<open>*dtdp\<close> and \<open>*size\<close> keep their old values where the source does not
  write them. A 32-bit size is stored into an \<open>int\<close>.
\<close>

definition sdp_extract_seqtype_safe ::
    "byte list \<Rightarrow> int \<Rightarrow> byte \<Rightarrow> int \<Rightarrow> (int \<times> byte \<times> int) run" where
  "sdp_extract_seqtype_safe buf bufsize dtd0 size0 =
     (if short_of bufsize 1 then Ret (0, dtd0, size0)
      else run_bind (rd 1 buf) (\<lambda>h.
        let t = hd h; q = drop 1 buf; b = bufsize - 1
        in if t \<in> {SDP_SEQ8, SDP_ALT8} then
             (if short_of b 1 then Ret (0, t, size0)
              else run_bind (rd 1 q) (\<lambda>v. Ret (2, t, int (get_be v))))
           else if t \<in> {SDP_SEQ16, SDP_ALT16} then
             (if short_of b 2 then Ret (0, t, size0)
              else run_bind (rd 2 q) (\<lambda>v. Ret (3, t, int (get_be v))))
           else if t \<in> {SDP_SEQ32, SDP_ALT32} then
             (if short_of b 4 then Ret (0, t, size0)
              else run_bind (rd 4 q) (\<lambda>v. Ret (5, t, sint (of_nat (get_be v) :: u32))))
           else Ret (0, t, size0)))"

text \<open>The switch of \<open>sdp_extract_attr_safe\<close>.\<close>

datatype attr_kind = KInt | KUuid | KStr | KSeq | KUnknown

definition attr_kind :: "byte \<Rightarrow> attr_kind" where
  "attr_kind t =
     (if t \<in> {SDP_DATA_NIL, SDP_BOOL, SDP_UINT8, SDP_UINT16, SDP_UINT32, SDP_UINT64, SDP_UINT128,
              SDP_INT8, SDP_INT16, SDP_INT32, SDP_INT64, SDP_INT128} then KInt
      else if t \<in> {SDP_UUID16, SDP_UUID32, SDP_UUID128} then KUuid
      else if is_str t then KStr
      else if is_seq_alt t then KSeq
      else KUnknown)"

text \<open>
  \<open>extract_seq\<close> stores the element count of its header into \<open>*len\<close>; its only caller passes
  a zero there. \<open>seq_loop\<close> is its \<open>while\<close> loop, with the chain built so far.
\<close>

function (sequential) sdp_extract_attr_safe ::
    "nat \<Rightarrow> byte list \<Rightarrow> int \<Rightarrow> int \<Rightarrow> sdp_record option \<Rightarrow> (sdp_data option \<times> int \<times> sdp_record option) run"
and extract_seq ::
    "nat \<Rightarrow> byte list \<Rightarrow> int \<Rightarrow> sdp_record option \<Rightarrow> (sdp_data option \<times> int \<times> sdp_record option) run"
and seq_loop ::
    "nat \<Rightarrow> byte list \<Rightarrow> int \<Rightarrow> int \<Rightarrow> int \<Rightarrow> sdp_data list \<Rightarrow> sdp_record option
       \<Rightarrow> (sdp_data list \<times> int \<times> sdp_record option) run" where
  "sdp_extract_attr_safe 0 p bufsize sz rec = NoFuel"
| "sdp_extract_attr_safe (Suc k) p bufsize sz rec =
     (if short_of bufsize 1 then Ret (None, sz, rec)
      else run_bind (rd 1 p) (\<lambda>h.
        case attr_kind (hd h) of
          KInt \<Rightarrow> run_bind (extract_int p bufsize 0) (\<lambda>(e, n). Ret (e, sz + n, rec))
        | KUuid \<Rightarrow> run_bind (extract_uuid p bufsize 0 rec) (\<lambda>(e, n, rec'). Ret (e, sz + n, rec'))
        | KStr \<Rightarrow> run_bind (extract_str p bufsize 0) (\<lambda>(e, n). Ret (e, sz + n, rec))
        | KSeq \<Rightarrow> run_bind (extract_seq k p bufsize rec) (\<lambda>(e, n, rec'). Ret (e, sz + n, rec'))
        | KUnknown \<Rightarrow> Ret (None, sz, rec)))"
| "extract_seq 0 p bufsize rec = NoFuel"
| "extract_seq (Suc k) p bufsize rec =
     run_bind (sdp_extract_seqtype_safe p bufsize 0 0) (\<lambda>(len, t, seqlen).
       if len = 0 then Ret (Some (Data t 0 (VSeq []) 0), 0, rec)
       else if bufsize < len then Ret (None, len, rec)
       else run_bind (seq_loop k (drop (nat len) p) (bufsize - len) seqlen 0 [] rec)
              (\<lambda>(ds, n, rec'). Ret (Some (Data t 0 (VSeq ds) 0), len + n, rec')))"
| "seq_loop 0 p bufsize seqlen n ds rec = NoFuel"
| "seq_loop (Suc k) p bufsize seqlen n ds rec =
     (if n < seqlen
      then run_bind (sdp_extract_attr_safe k p bufsize 0 rec) (\<lambda>(curr, attrlen, rec').
             case curr of
               None \<Rightarrow> Ret (ds, n, rec')
             | Some d \<Rightarrow> seq_loop k (drop (nat attrlen) p) (bufsize - attrlen) seqlen
                           (n + attrlen) (ds @ [d]) rec')
      else Ret (ds, n, rec))"
  by pat_completeness auto

termination
  by (relation "measure (\<lambda>x. case x of Inl (k, _) \<Rightarrow> k | Inr (Inl (k, _)) \<Rightarrow> k | Inr (Inr (k, _)) \<Rightarrow> k)")
    simp_all

subsection \<open>Records\<close>

text \<open>What one turn of the loop does with an attribute it parsed.\<close>

definition take_attr :: "sdp_record \<Rightarrow> u16 \<Rightarrow> sdp_data \<Rightarrow> sdp_record run" where
  "take_attr rec attr d =
     run_bind (if attr = SDP_ATTR_RECORD_HANDLE
               then (case val d of VNum w \<Rightarrow> Ret (rec\<lparr>handle := ucast w\<rparr>) | _ \<Rightarrow> Fault)
               else Ret rec) (\<lambda>rec1.
       let rec2 = (if attr = SDP_ATTR_SVCLASS_ID_LIST
                   then rec1\<lparr>svclass := extract_svclass_uuid d (svclass rec1)\<rparr> else rec1)
       in Ret (sdp_attr_replace rec2 attr d))"

fun extract_pdu_loop ::
    "nat \<Rightarrow> byte list \<Rightarrow> int \<Rightarrow> int \<Rightarrow> int \<Rightarrow> sdp_record \<Rightarrow> sdp_record run" where
  "extract_pdu_loop 0 p bufsize seqlen extracted rec = NoFuel"
| "extract_pdu_loop (Suc k) p bufsize seqlen extracted rec =
     (if extracted < seqlen \<and> 0 < bufsize
      then if short_of bufsize 3 then Ret rec
           else run_bind (rd 1 p) (\<lambda>_.
                run_bind (rd 2 (drop 1 p)) (\<lambda>a.
                run_bind (sdp_extract_attr_safe k (drop 3 p) (bufsize - 3) 0 (Some rec)) (\<lambda>(data, attrlen, rec').
                  case data of
                    None \<Rightarrow> Ret (the rec')
                  | Some d \<Rightarrow>
                      run_bind (take_attr (the rec') (of_nat (get_be a)) d) (\<lambda>rec1.
                        extract_pdu_loop k (drop (nat (3 + attrlen)) p) (bufsize - (3 + attrlen)) seqlen
                          (extracted + (3 + attrlen)) rec1))))
      else Ret rec)"

definition sdp_extract_pdu_safe :: "nat \<Rightarrow> byte list \<Rightarrow> int \<Rightarrow> (sdp_record \<times> int) run" where
  "sdp_extract_pdu_safe fuel buf bufsize =
     run_bind (sdp_extract_seqtype_safe buf bufsize 0 0) (\<lambda>(scanned, t, seqlen).
     run_bind (extract_pdu_loop fuel (drop (nat scanned) buf) (bufsize - scanned) seqlen 0
                 (sdp_record_alloc\<lparr>attrlist := []\<rparr>))
       (\<lambda>rec. Ret (rec, scanned + seqlen)))"

text \<open>The variants without a size take the packet to hold \<open>SDP_MAX_ATTR_LEN\<close> bytes.\<close>

definition SDP_MAX_ATTR_LEN :: int where "SDP_MAX_ATTR_LEN = 65535"

definition sdp_uuid_extract :: "byte list \<Rightarrow> int \<Rightarrow> (sdp_uuid option \<times> int) run" where
  "sdp_uuid_extract p scanned = sdp_uuid_extract_safe p SDP_MAX_ATTR_LEN scanned"

definition sdp_extract_seqtype :: "byte list \<Rightarrow> byte \<Rightarrow> int \<Rightarrow> (int \<times> byte \<times> int) run" where
  "sdp_extract_seqtype buf dtd0 size0 = sdp_extract_seqtype_safe buf SDP_MAX_ATTR_LEN dtd0 size0"

definition sdp_extract_attr ::
    "nat \<Rightarrow> byte list \<Rightarrow> int \<Rightarrow> sdp_record option \<Rightarrow> (sdp_data option \<times> int \<times> sdp_record option) run" where
  "sdp_extract_attr fuel p sz rec = sdp_extract_attr_safe fuel p SDP_MAX_ATTR_LEN sz rec"

definition sdp_extract_pdu :: "nat \<Rightarrow> byte list \<Rightarrow> (sdp_record \<times> int) run" where
  "sdp_extract_pdu fuel buf = sdp_extract_pdu_safe fuel buf SDP_MAX_ATTR_LEN"

text \<open>\<open>extract_record_handle_seq\<close>: an array of handles, without a sequence header.\<close>

fun extract_record_handle_seq ::
    "byte list \<Rightarrow> int \<Rightarrow> u32 list \<Rightarrow> nat \<Rightarrow> int \<Rightarrow> (u32 list \<times> int) run" where
  "extract_record_handle_seq pdata bufsize seq 0 scanned = Ret (seq, scanned)"
| "extract_record_handle_seq pdata bufsize seq (Suc cnt) scanned =
     (if short_of bufsize 4 then Ret (seq, scanned)
      else run_bind (rd 4 pdata) (\<lambda>v.
        extract_record_handle_seq (drop 4 pdata) (bufsize - 4)
          (sdp_list_append seq (of_nat (get_be v))) cnt (scanned + 4)))"

subsection \<open>Reads stay inside the packet\<close>

text \<open>
  The outcome of parsing one element of which \<open>b\<close> bytes were left: no access outside the
  object, and an element never accounts for more than these bytes.
\<close>

definition int_safe :: "int \<Rightarrow> int \<Rightarrow> ('e option \<times> int) run \<Rightarrow> bool" where
  "int_safe l b r \<longleftrightarrow> r \<noteq> Fault \<and> (\<forall>d s. r = Ret (Some d, s) \<longrightarrow> l \<le> s \<and> s \<le> l + b)"

definition elem_safe :: "int \<Rightarrow> int \<Rightarrow> ('e option \<times> int \<times> 'r) run \<Rightarrow> bool" where
  "elem_safe l b r \<longleftrightarrow> r \<noteq> Fault \<and> (\<forall>d s rec. r = Ret (Some d, s, rec) \<longrightarrow> l \<le> s \<and> s \<le> l + b)"

definition no_str16 :: "byte list \<Rightarrow> bool" where
  "no_str16 p \<longleftrightarrow> SDP_TEXT_STR16 \<notin> set p \<and> SDP_URL_STR16 \<notin> set p"

lemma no_str16_drop: "no_str16 p \<Longrightarrow> no_str16 (drop n p)"
  by (meson in_set_dropD no_str16_def)

text \<open>The pattern of all the parsers: a size check, then a read.\<close>

lemma checked_read:
  assumes "0 \<le> b" and "b \<le> int (length q)" and "S e"
    and "int n \<le> b \<Longrightarrow> S (f (take n q))"
  shows "S (if short_of b n then e else run_bind (rd n q) f)"
  using assms by (auto simp: short_of_def rd_def)

lemma int_safe_if: "int_safe l b x \<Longrightarrow> int_safe l b y \<Longrightarrow> int_safe l b (if C then x else y)"
  by simp

lemmas int_safe_read = checked_read [where S = "int_safe l b" for l b]

lemma int_safe_None [simp]: "int_safe l b (Ret (None, s))"
  by (simp add: int_safe_def)

lemma int_safe_Some [simp]: "int_safe l b (Ret (Some d, s)) \<longleftrightarrow> l \<le> s \<and> s \<le> l + b"
  by (simp add: int_safe_def)

lemma extract_num_safe:
  "0 \<le> b \<Longrightarrow> b \<le> int (length q) \<Longrightarrow> int_safe l (b + 1) (extract_num t n q b (l + 1))"
  unfolding extract_num_def by (rule int_safe_read) simp_all

lemma extract_int_safe:
  assumes "0 \<le> b" "b \<le> int (length p)"
  shows "int_safe l b (extract_int p b l)"
  unfolding extract_int_def
proof (rule int_safe_read [OF assms])
  assume "int 1 \<le> b"
  then have q: "0 \<le> b - 1" "b - 1 \<le> int (length (drop 1 p))" using assms by auto
  show "int_safe l b (let t = hd (take 1 p); q = drop 1 p; b = b - 1; l = l + 1
        in if t = SDP_DATA_NIL then Ret (Some (Data t 0 (VNum 0) 0), l)
           else if t \<in> {SDP_BOOL, SDP_INT8, SDP_UINT8} then extract_num t 1 q b l
           else if t \<in> {SDP_INT16, SDP_UINT16} then extract_num t 2 q b l
           else if t \<in> {SDP_INT32, SDP_UINT32} then extract_num t 4 q b l
           else if t \<in> {SDP_INT64, SDP_UINT64} then extract_num t 8 q b l
           else if t \<in> {SDP_INT128, SDP_UINT128} then
             (if short_of b 16 then Ret (None, l)
              else run_bind (rd 16 q) (\<lambda>v. Ret (Some (Data t 0 (VNum128 (ntoh128 v)) 0), l + 16)))
           else Ret (None, l))"
    unfolding Let_def
    using extract_num_safe [OF q, of l] \<open>int 1 \<le> b\<close>
    by (intro int_safe_read [OF q] int_safe_if) simp_all
qed simp

lemma uuid_extract_safe:
  assumes "0 \<le> b" "b \<le> int (length p)"
  shows "int_safe l b (sdp_uuid_extract_safe p b l)"
  unfolding sdp_uuid_extract_safe_def Let_def
proof (rule int_safe_read [OF assms], goal_cases)
  case 2
  then have q: "0 \<le> b - 1" "b - 1 \<le> int (length (drop 1 p))" using assms by auto
  with 2 show ?case by (intro int_safe_read [OF q] int_safe_if) simp_all
qed simp

lemma extract_str_safe:
  assumes "0 \<le> b" "b \<le> int (length p)" "no_str16 p"
  shows "int_safe l b (extract_str p b l)"
  unfolding extract_str_def Let_def
proof (rule int_safe_read [OF assms(1,2)], goal_cases)
  case 2
  then have q: "0 \<le> b - 1" "b - 1 \<le> int (length (drop 1 p))" and h: "hd (take 1 p) \<in> set p"
    using assms by (cases p; auto)+
  have t: "hd (take 1 p) \<notin> {SDP_TEXT_STR16, SDP_URL_STR16}"
    using h assms(3) by (auto simp: no_str16_def)
  have body: "int_safe l b (extract_str_body t n (drop 1 (drop 1 p)) (b - 1 - 1) (l + 1 + 1))" 
    if "int 1 \<le> b - 1" for t n
    using that assms by (auto simp: extract_str_body_def rd_def int_safe_def)
  show ?case
    unfolding if_not_P [OF t] by (intro int_safe_read [OF q] int_safe_if body) simp_all
qed simp


lemma elem_safe_None [simp]: "elem_safe l b (Ret (None, s, rec))"
  by (simp add: elem_safe_def)

lemma elem_safe_of_int:
  "int_safe 0 b r \<Longrightarrow> elem_safe sz b (run_bind r (\<lambda>(e, n). Ret (e, sz + n, rec)))"
  by (cases r) (auto simp: int_safe_def elem_safe_def)

lemma elem_safe_shift:
  "elem_safe 0 b r \<Longrightarrow> elem_safe sz b (run_bind r (\<lambda>(e, n, rec). Ret (e, sz + n, rec)))"
  by (cases r) (auto simp: elem_safe_def)

lemma extract_uuid_safe:
  assumes "0 \<le> b" "b \<le> int (length p)"
  shows "elem_safe 0 b (extract_uuid p b 0 rec)"
proof -
  have "rd 1 p \<noteq> Fault" if "sdp_uuid_extract_safe p b 0 = Ret (Some u, s)" for u s
    using that by (auto simp: sdp_uuid_extract_safe_def Let_def rd_def split: if_splits)
  moreover have "rd 1 p \<noteq> NoFuel" by (simp add: rd_def)
  ultimately show ?thesis
    using uuid_extract_safe [OF assms, of 0]
    by (fastforce simp: extract_uuid_def elem_safe_def int_safe_def run_bind_eq_Fault split: option.splits)
qed

lemma seqtype_safe:
  assumes "0 \<le> b" "b \<le> int (length p)"
  shows "\<exists>len t n. sdp_extract_seqtype_safe p b t0 n0 = Ret (len, t, n) \<and> len \<in> {0, 2, 3, 5}
           \<and> len \<le> b \<and> (len = 0 \<longrightarrow> n = n0)"
proof -
  define S where "S = (\<lambda>r. \<exists>len t n. r = Ret (len, t :: byte, n) \<and> len \<in> {0, 2, 3, 5 :: int}
     \<and> len \<le> b \<and> (len = 0 \<longrightarrow> n = n0))"
  have S_if: "S x \<Longrightarrow> S y \<Longrightarrow> S (if C then x else y)" for x y C by simp
  note S_read = checked_read [where S = S]
  have "S (sdp_extract_seqtype_safe p b t0 n0)"
    unfolding sdp_extract_seqtype_safe_def Let_def
  proof (rule S_read [OF assms], goal_cases)
    case 2
    then have q: "0 \<le> b - 1" "b - 1 \<le> int (length (drop 1 p))" using assms by auto
    with 2 show ?case
      by (intro S_read [OF q] S_if) (simp_all add: S_def)
  qed (use assms in \<open>simp add: S_def\<close>)
  then show ?thesis by (simp add: S_def)
qed

definition loop_safe :: "int \<Rightarrow> int \<Rightarrow> ('d \<times> int \<times> 'r) run \<Rightarrow> bool" where
  "loop_safe n b r \<longleftrightarrow> r \<noteq> Fault \<and> (\<forall>ds s rec. r = Ret (ds, s, rec) \<longrightarrow> n \<le> s \<and> s \<le> n + b)"

lemma extract_safe:
  shows "0 \<le> b \<Longrightarrow> b \<le> int (length p) \<Longrightarrow> no_str16 p \<Longrightarrow> elem_safe sz b (sdp_extract_attr_safe k p b sz rec)"
    and "0 \<le> b \<Longrightarrow> b \<le> int (length p) \<Longrightarrow> no_str16 p \<Longrightarrow> elem_safe 0 b (extract_seq k p b rec)"
    and "0 \<le> b \<Longrightarrow> b \<le> int (length p) \<Longrightarrow> no_str16 p \<Longrightarrow> loop_safe n b (seq_loop k p b seqlen n ds rec)"
proof (induction k arbitrary: b p sz rec n seqlen ds)
  case 0
  { case 1 show ?case by (simp add: elem_safe_def) }
  { case 2 show ?case by (simp add: elem_safe_def) }
  { case 3 show ?case by (simp add: loop_safe_def) }
next
  case (Suc k)
  { case 1
    show ?case
      unfolding sdp_extract_attr_safe.simps
    proof (rule checked_read [where S = "elem_safe sz b", OF 1(1,2)], goal_cases)
      case 2
      show ?case
        using elem_safe_of_int [OF extract_int_safe [OF 1(1,2)], of sz rec]
          elem_safe_of_int [OF extract_str_safe [OF 1], of sz rec]
          elem_safe_shift [OF extract_uuid_safe [OF 1(1,2)]] elem_safe_shift [OF Suc(2) [OF 1]]
        by (cases "attr_kind (hd (take 1 p))") simp_all
    qed (simp add: elem_safe_def) }
  { case 2
    obtain len t m where h: "sdp_extract_seqtype_safe p b 0 0 = Ret (len, t, m)" "len \<in> {0, 2, 3, 5}" "len \<le> b"
      using seqtype_safe [OF 2(1,2)] by blast
    then have "0 \<le> b - len" "b - len \<le> int (length (drop (nat len) p))" "0 \<le> len"
      using 2 by auto
    then have "loop_safe 0 (b - len) (seq_loop k (drop (nat len) p) (b - len) m 0 [] rec)"
      using Suc(3) no_str16_drop [OF 2(3)] by blast
    with h \<open>0 \<le> len\<close> 2(1) show ?case
      by (cases "seq_loop k (drop (nat len) p) (b - len) m 0 [] rec") (auto simp: loop_safe_def elem_safe_def) }
  { case 3
    have e: "elem_safe 0 b (sdp_extract_attr_safe k p b 0 rec)" using Suc(1) 3 by blast
    show ?case
    proof (cases "\<exists>d s rec'. n < seqlen \<and> sdp_extract_attr_safe k p b 0 rec = Ret (Some d, s, rec')")
      case True
      then obtain d s rec' where d: "n < seqlen" "sdp_extract_attr_safe k p b 0 rec = Ret (Some d, s, rec')" by blast
      with e have s: "0 \<le> s" "s \<le> b" by (auto simp: elem_safe_def)
      then have "loop_safe (n + s) (b - s) (seq_loop k (drop (nat s) p) (b - s) seqlen (n + s) (ds @ [d]) rec')"
        using Suc(3) [of "b - s" "drop (nat s) p"] no_str16_drop [OF 3(3)] 3 by auto
      with d s show ?thesis by (auto simp: loop_safe_def)
    next
      case False
      with e 3(1) show ?thesis
        by (cases "sdp_extract_attr_safe k p b 0 rec") (auto simp: loop_safe_def elem_safe_def split: option.splits)
    qed }
qed

subsection \<open>Packets on which the parser misbehaves\<close>

lemma extract_str16_size:
  assumes "t \<in> {SDP_TEXT_STR16, SDP_URL_STR16}" and "length s < 65536" and "3 + int (length s) \<le> b"
  shows "extract_str (t # put_be 2 (length s) @ s @ rest) b l
    = Ret (Some (Data t 0 (VStr (s @ [0])) (1 + length s)), l + 3 + 2 * int (length s))"
proof -
  have g: "get_be (put_be 2 (length s)) = length s"
    using assms(2) by (intro get_be_put_be_id) simp
  have r: "rd 1 (x # q) = Ret [x]" "rd 2 (put_be 2 n @ q) = Ret (put_be 2 n)" "rd (length s) (s @ rest) = Ret s" for x q n
    by (simp_all add: rd_def)
  show ?thesis
    using assms by (auto simp: extract_str_def short_of_def r [simplified] g extract_str_body_def)
qed

lemma overread:
  assumes "6 \<le> k"
  shows "sdp_extract_attr_safe k [SDP_SEQ16, 0xff, 0xff, SDP_TEXT_STR16, 0, 4, 97, 98, 99, 100] 10 0 rec = Fault"
proof -
  obtain k' where k: "k = Suc (Suc (Suc (Suc (Suc (Suc k')))))"
    using assms by (intro that [of "k - 6"]) simp
  have "extract_str [SDP_TEXT_STR16, 0, 4, 97, 98, 99, 100] 7 0
      = Ret (Some (Data SDP_TEXT_STR16 0 (VStr [97, 98, 99, 100, 0]) 5), 11)"
    by (simp add: extract_str_def short_of_def rd_def extract_str_body_def get_be_def)
  then show ?thesis
    by (simp add: k short_of_def rd_def attr_kind_def is_str_def is_seq_alt_def
        sdp_extract_seqtype_safe_def get_be_def)
qed




subsection \<open>Properties\<close>

text \<open>
  C4: parsing one data element never reads outside the packet, whatever bytes the peer
  sent, as long as none of them is one of the two 16-bit string descriptors: for every
  buffer that holds at least the \<open>bufsize\<close> bytes the caller promises and for every amount
  of fuel the run does not fault, and an element that is returned accounts for at most
  the bytes that were left.
\<close>

theorem extract_attr_stays_inside:
  assumes "0 \<le> bufsize" and "bufsize \<le> int (length p)" and "no_str16 p"
  shows "sdp_extract_attr_safe k p bufsize sz rec \<noteq> Fault
    \<and> (\<forall>d s rec'. sdp_extract_attr_safe k p bufsize sz rec = Ret (Some d, s, rec') \<longrightarrow> sz \<le> s \<and> s \<le> sz + bufsize)"
  using extract_safe(1) [OF assms] unfolding elem_safe_def by blast

theorem extract_attr_stays_inside_witness:
  "sdp_extract_attr_safe 20 [SDP_SEQ8, 5, SDP_UINT8, 7, SDP_UUID16, 0x11, 0x01] 7 0 None \<noteq> Fault"
  using extract_attr_stays_inside [of 7 "[SDP_SEQ8, 5, SDP_UINT8, 7, SDP_UUID16, 0x11, 0x01]" 20 0 None]
  by (simp add: no_str16_def)

text \<open>
  C29: the two 16-bit string descriptors break the accounting. The size reported for such
  a string counts its characters twice, so that a sequence which holds one and claims to be
  longer than the packet makes the parser read behind the packet, for every amount of fuel
  from six on.
\<close>

theorem str16_counted_twice:
  assumes "length s < 65536" and "3 + int (length s) \<le> b" and "6 \<le> k"
  shows "extract_str (SDP_TEXT_STR16 # put_be 2 (length s) @ s @ rest) b 0
      = Ret (Some (Data SDP_TEXT_STR16 0 (VStr (s @ [0])) (1 + length s)), 3 + 2 * int (length s))
    \<and> sdp_extract_attr_safe k [SDP_SEQ16, 0xff, 0xff, SDP_TEXT_STR16, 0, 4, 97, 98, 99, 100] 10 0 rec = Fault"
  using extract_str16_size [of SDP_TEXT_STR16 s b rest 0] overread assms by simp

theorem str16_counted_twice_witness:
  "extract_str (SDP_TEXT_STR16 # put_be 2 (length [65 :: byte]) @ [65] @ []) 4 0
     = Ret (Some (Data SDP_TEXT_STR16 0 (VStr ([65] @ [0])) (1 + length [65 :: byte])), 3 + 2 * int (length [65 :: byte]))
   \<and> sdp_extract_attr_safe 6 [SDP_SEQ16, 0xff, 0xff, SDP_TEXT_STR16, 0, 4, 97, 98, 99, 100] 10 0 None = Fault"
  by (rule str16_counted_twice) simp_all


end
