(* ===== verification/SDP_RoundTrip.thy ===== *)
theory SDP_RoundTrip
  imports SDP_Extract
begin

section \<open>Generating and parsing are inverse\<close>

text \<open>
  What \<open>sdp_gen_pdu\<close> and \<open>sdp_gen_record_pdu\<close> produce, \<open>sdp_extract_attr\<close> and
  \<open>sdp_extract_pdu\<close> take back: for data elements by induction on the element, for
  records through the \<open>attr_store\<close> interface.
\<close>

subsection \<open>What was encoded is parsed back\<close>

text \<open>
  \<open>rx d\<close> is the element a receiver builds from the encoding of \<open>d\<close>: numbers cut to their
  width, strings with a terminating zero, and sizes that the parser leaves at zero except
  for strings. \<open>rt_ok\<close> says which elements survive: one-byte string sizes, sizes that fit
  their field, and descriptors the parser knows.
\<close>

definition num_width :: "byte \<Rightarrow> nat" where
  "num_width t =
     (if t \<in> {SDP_UINT8, SDP_INT8, SDP_BOOL} then 1
      else if t \<in> {SDP_UINT16, SDP_INT16} then 2
      else if t \<in> {SDP_UINT32, SDP_INT32} then 4
      else if t \<in> {SDP_UINT64, SDP_INT64} then 8
      else 0)"

definition rx_scalar :: "byte \<Rightarrow> sdp_val \<Rightarrow> sdp_val" where
  "rx_scalar t v = (case v of VNum w \<Rightarrow> VNum (take_bit (8 * num_width t) w) | _ \<Rightarrow> v)"

definition scalar_rt_ok :: "byte \<Rightarrow> sdp_val \<Rightarrow> bool" where
  "scalar_rt_ok t v \<longleftrightarrow>
     (case v of
        VNum w \<Rightarrow> t = SDP_DATA_NIL \<or> num_width t \<noteq> 0
      | VNum128 b \<Rightarrow> t \<in> {SDP_UINT128, SDP_INT128} \<and> length b = 16
      | VUuid u \<Rightarrow> u \<noteq> UUID_NONE \<and> t = uuid_type u \<and> uuid_ok u
      | _ \<Rightarrow> False)"

fun rx :: "sdp_data \<Rightarrow> sdp_data"
and rx_list :: "sdp_data list \<Rightarrow> sdp_data list" where
  "rx (Data t aid v us) =
     (if is_str t then Data t 0 (case v of VStr s \<Rightarrow> VStr (take (us - 1) s @ [0]) | _ \<Rightarrow> VStr [0]) us
      else if is_seq_alt t then Data t 0 (case v of VSeq ds \<Rightarrow> VSeq (rx_list ds) | _ \<Rightarrow> v) 0
      else Data t 0 (rx_scalar t v) 0)"
| "rx_list [] = []"
| "rx_list (d # ds) = rx d # rx_list ds"

fun rt_ok :: "sdp_data \<Rightarrow> bool"
and rt_ok_list :: "sdp_data list \<Rightarrow> bool" where
  "rt_ok (Data t aid v us) =
     (if is_str t then
        t \<in> {SDP_TEXT_STR8, SDP_URL_STR8} \<and> 1 \<le> us \<and> us \<le> 256
        \<and> (case v of VStr s \<Rightarrow> us \<le> 1 + length s | VNum w \<Rightarrow> w = 0 \<and> us = 1 | _ \<Rightarrow> False)
      else if is_seq_alt t then
        (case v of
           VSeq ds \<Rightarrow> rt_ok_list ds \<and> length (sdp_enc_list ds) < 256 ^ len_width t
                      \<and> length (sdp_enc_list ds) < 2 ^ 31
         | _ \<Rightarrow> False)
      else scalar_rt_ok t v)"
| "rt_ok_list [] = True"
| "rt_ok_list (d # ds) = (rt_ok d \<and> rt_ok_list ds)"

fun uuids_of :: "sdp_data \<Rightarrow> sdp_uuid list"
and uuids_of_list :: "sdp_data list \<Rightarrow> sdp_uuid list" where
  "uuids_of (Data t aid v us) =
     (if is_str t then []
      else (case v of VUuid u \<Rightarrow> [u] | VSeq ds \<Rightarrow> uuids_of_list ds | _ \<Rightarrow> []))"
| "uuids_of_list [] = []"
| "uuids_of_list (d # ds) = uuids_of d @ uuids_of_list ds"

lemma pattern_add_uuidseq_append:
  "sdp_pattern_add_uuidseq r (us @ vs) = sdp_pattern_add_uuidseq (sdp_pattern_add_uuidseq r us) vs"
  by (induction us arbitrary: r) auto

lemma rd_one [simp]: "rd (Suc 0) (t # q) = Ret [t]"
  by (simp add: rd_def)

lemma rd_append: "length bs = n \<Longrightarrow> rd n (bs @ rest) = Ret bs"
  by (auto simp: rd_def)

lemma take_bit_of_nat_mod: "(of_nat (unat w mod 256 ^ n) :: u64) = take_bit (8 * n) w"
proof -
  have "(256 :: nat) ^ n = 2 ^ (8 * n)" by (simp add: power_mult)
  then have "of_nat (unat w mod 256 ^ n) = (of_nat (take_bit (8 * n) (unat w)) :: u64)"
    by (simp add: take_bit_eq_mod)
  also have "\<dots> = take_bit (8 * n) w"
    by (simp add: of_nat_take_bit)
  finally show ?thesis .
qed

lemma extract_num_enc:
  assumes "int n \<le> b"
  shows "extract_num t n (put_be n (unat w) @ rest) b l
       = Ret (Some (Data t 0 (VNum (take_bit (8 * n) w)) 0), l + int n)"
  using assms
  by (simp add: extract_num_def short_of_def rd_append get_be_put_be take_bit_of_nat_mod)

lemma num_width_cases:
  "num_width t \<noteq> 0 \<Longrightarrow> t \<in> {SDP_UINT8, SDP_INT8, SDP_BOOL} \<or> t \<in> {SDP_UINT16, SDP_INT16}
      \<or> t \<in> {SDP_UINT32, SDP_INT32} \<or> t \<in> {SDP_UINT64, SDP_INT64}"
  by (simp only: num_width_def split: if_splits) simp_all

lemma extract_int_num:
  assumes "num_width t \<noteq> 0" and "1 \<le> b"
  shows "extract_int (t # q) b l = extract_num t (num_width t) q (b - 1) (l + 1)"
    and "attr_kind t = KInt" and "scalar_bytes t (VNum w) = put_be (num_width t) (unat w)"
proof -
  note t = num_width_cases [OF assms(1)]
  then show "extract_int (t # q) b l = extract_num t (num_width t) q (b - 1) (l + 1)"
    using assms(2) by (auto simp: extract_int_def num_width_def rd_def short_of_def)
  show "attr_kind t = KInt" "scalar_bytes t (VNum w) = put_be (num_width t) (unat w)"
    using t by (auto simp: attr_kind_def num_width_def scalar_bytes_def simp del: put_be.simps)
qed


definition add_uuids :: "sdp_uuid list \<Rightarrow> sdp_record option \<Rightarrow> sdp_record option" where
  "add_uuids us = map_option (\<lambda>r. sdp_pattern_add_uuidseq r us)"

lemma add_uuids_simps [simp]:
  "add_uuids [] rec = rec" "add_uuids vs (add_uuids us rec) = add_uuids (us @ vs) rec"
  "map_option (\<lambda>r. sdp_pattern_add_uuid r u) rec = add_uuids [u] rec"
  by (cases rec; simp add: add_uuids_def pattern_add_uuidseq_append)+

declare sdp_extract_attr_safe.simps(2) [simp del]

lemma attr_safe_step:
  "1 \<le> b \<Longrightarrow> sdp_extract_attr_safe (Suc k) (t # q) b sz rec =
     (case attr_kind t of
          KInt \<Rightarrow> run_bind (extract_int (t # q) b 0) (\<lambda>(e, n). Ret (e, sz + n, rec))
        | KUuid \<Rightarrow> run_bind (extract_uuid (t # q) b 0 rec) (\<lambda>(e, n, rec'). Ret (e, sz + n, rec'))
        | KStr \<Rightarrow> run_bind (extract_str (t # q) b 0) (\<lambda>(e, n). Ret (e, sz + n, rec))
        | KSeq \<Rightarrow> run_bind (extract_seq k (t # q) b rec) (\<lambda>(e, n, rec'). Ret (e, sz + n, rec'))
        | KUnknown \<Rightarrow> Ret (None, sz, rec))"
  by (simp add: sdp_extract_attr_safe.simps(2) short_of_def rd_def)

lemma extract_uuid_enc:
  assumes "uuid_ok u" "u \<noteq> UUID_NONE" "int (length (uuid_type u # scalar_bytes (uuid_type u) (VUuid u))) \<le> b"
  shows "extract_uuid ((uuid_type u # scalar_bytes (uuid_type u) (VUuid u)) @ rest) b l rec
    = Ret (Some (Data (uuid_type u) 0 (VUuid u) 0), l + int (length (uuid_type u # scalar_bytes (uuid_type u) (VUuid u))),
           add_uuids [u] rec)"
proof -
  have 2: "of_nat (get_be (put_be 2 (unat v))) = v" for v :: u16
  proof -
    have "unat v < 256 ^ 2" using unsigned_less [of v] by simp
    then show ?thesis by (simp only: get_be_put_be_id) simp
  qed
  have 4: "of_nat (get_be (put_be 4 (unat v))) = v" for v :: u32
  proof -
    have "unat v < 256 ^ 4" using unsigned_less [of v] by simp
    then show ?thesis by (simp only: get_be_put_be_id) simp
  qed
  show ?thesis
    using assms
    by (cases u)
      (simp_all add: extract_uuid_def sdp_uuid_extract_safe_def short_of_def rd_append SDP_IS_UUID_def
        scalar_bytes_def 2 4 sdp_uuid16_create_def sdp_uuid32_create_def sdp_uuid128_create_def)
qed

lemma extract_scalar:
  assumes "scalar_rt_ok t v" and "int (length (t # scalar_bytes t v)) \<le> b"
  shows "sdp_extract_attr_safe (Suc k) ((t # scalar_bytes t v) @ rest) b sz rec
    = Ret (Some (Data t 0 (rx_scalar t v) 0), sz + int (length (t # scalar_bytes t v)),
           add_uuids (case v of VUuid u \<Rightarrow> [u] | _ \<Rightarrow> []) rec)"
proof (cases v)
  case (VNum w)
  show ?thesis
  proof (cases "t = SDP_DATA_NIL")
    case True
    with VNum assms(2) show ?thesis
      by (simp add: attr_safe_step attr_kind_def extract_int_def short_of_def rd_def scalar_bytes_def
          rx_scalar_def num_width_def)
  next
    case False
    then have t: "num_width t \<noteq> 0" using assms(1) VNum by (simp add: scalar_rt_ok_def)
    have b: "1 \<le> b" "int (num_width t) \<le> b - 1"
      using assms(2) VNum extract_int_num(3) [OF t, of 1 w] by simp_all
    show ?thesis
      unfolding VNum append_Cons attr_safe_step [OF b(1)] extract_int_num [OF t b(1)]
      using extract_num_enc [OF b(2)] by (simp add: rx_scalar_def)
  qed
next
  case (VNum128 x)
  then show ?thesis
    using assms
    by (auto simp: scalar_rt_ok_def attr_safe_step attr_kind_def extract_int_def short_of_def rd_def
        scalar_bytes_def rx_scalar_def ntoh128_def)
next
  case (VUuid u)
  then have u: "t = uuid_type u" "uuid_ok u" "u \<noteq> UUID_NONE" using assms(1) by (auto simp: scalar_rt_ok_def)
  then have "attr_kind t = KUuid" by (cases u) (simp_all add: attr_kind_def)
  with assms(2) VUuid u extract_uuid_enc [OF u(2,3), of b rest 0 rec] show ?thesis
    by (simp add: attr_safe_step rx_scalar_def)
qed (use assms in \<open>simp_all add: scalar_rt_ok_def\<close>)

lemma extract_str_enc:
  assumes "t \<in> {SDP_TEXT_STR8, SDP_URL_STR8}" and "length s \<le> 255" and "2 + int (length s) \<le> b"
  shows "sdp_extract_attr_safe (Suc k) (t # put_be 1 (length s) @ s @ rest) b sz rec
    = Ret (Some (Data t 0 (VStr (s @ [0])) (1 + length s)), sz + 2 + int (length s), rec)"
proof -
  have k: "attr_kind t = KStr" using assms(1) by (auto simp: attr_kind_def is_str_def)
  have g: "get_be [of_nat (length s)] = length s"
    using assms(2) by (simp add: get_be_def unat_of_nat)
  show ?thesis
    using assms by (auto simp: attr_safe_step k extract_str_def short_of_def extract_str_body_def rd_append g)
qed

lemma seqtype_enc:
  assumes "is_seq_alt t" and "m < 256 ^ len_width t" "m < 2 ^ 31" and "1 + int (len_width t) \<le> b"
  shows "sdp_extract_seqtype_safe (t # put_be (len_width t) m @ rest) b t0 n0
    = Ret (1 + int (len_width t), t, int m)"
proof -
  have s: "sint (of_nat m :: u32) = int m"
    using assms(3) by (simp add: signed_of_nat signed_take_bit_int_eq_self)
  have t: "t \<in> {SDP_SEQ8, SDP_ALT8} \<or> t \<in> {SDP_SEQ16, SDP_ALT16} \<or> t \<in> {SDP_SEQ32, SDP_ALT32}"
    using assms(1) by (auto simp: is_seq_alt_def)
  have 1: "get_be (put_be (Suc 0) m) = m" if "m < 256"
    using that by (intro get_be_put_be_id) simp
  from t show ?thesis
    using assms(2,4) s 1
    by (elim disjE)
      (auto simp: sdp_extract_seqtype_safe_def short_of_def len_width_def rd_append get_be_put_be_id
        simp del: put_be.simps)
qed

lemma attr_kind_seq: "is_seq_alt t \<Longrightarrow> attr_kind t = KSeq"
  by (auto simp: is_seq_alt_def attr_kind_def is_str_def)

lemma len_width_pos: "is_seq_alt t \<Longrightarrow> 1 \<le> len_width t"
  by (auto simp: is_seq_alt_def len_width_def)

lemma extract_enc:
  shows "rt_ok d \<Longrightarrow> 2 * length (sdp_enc d) \<le> k \<Longrightarrow> int (length (sdp_enc d)) \<le> b \<Longrightarrow>
    sdp_extract_attr_safe k (sdp_enc d @ rest) b sz rec
      = Ret (Some (rx d), sz + int (length (sdp_enc d)), add_uuids (uuids_of d) rec)"
  and "rt_ok_list ds \<Longrightarrow> 1 + 2 * length (sdp_enc_list ds) \<le> k \<Longrightarrow> int (length (sdp_enc_list ds)) \<le> b \<Longrightarrow>
    seq_loop k (sdp_enc_list ds @ rest) b (n + int (length (sdp_enc_list ds))) n acc rec
      = Ret (acc @ rx_list ds, n + int (length (sdp_enc_list ds)), add_uuids (uuids_of_list ds) rec)"
proof (induction d and ds arbitrary: k b rest sz rec and k b rest n acc rec rule: sdp_enc_sdp_enc_list.induct)
  case (1 t aid v us)
  consider (str) "is_str t" | (seq) "\<not> is_str t" "is_seq_alt t" | (scal) "\<not> is_str t" "\<not> is_seq_alt t"
    by blast
  then show ?case
  proof cases
    case str
    then have t: "t \<in> {SDP_TEXT_STR8, SDP_URL_STR8}" and us: "1 \<le> us" "us \<le> 256"
      using "1.prems"(1) by auto
    then have w: "len_width t = 1" by (auto simp: len_width_def)
    obtain s where s: "length s = us - 1" "sdp_enc (Data t aid v us) = t # put_be 1 (length s) @ s"
        "rx (Data t aid v us) = Data t 0 (VStr (s @ [0])) us" "uuids_of (Data t aid v us) = []"
    proof (cases v)
      case (VStr x)
      then have "length (take (us - 1) x) = us - 1" using "1.prems"(1) str by auto
      with VStr show thesis
        using that [of "take (us - 1) x"] str w by simp
    next
      case (VNum x)
      then show thesis
        using that [of "[]"] "1.prems"(1) str w by simp
    qed (use "1.prems"(1) str in auto)
    show ?thesis
      using s extract_str_enc [OF t, of s b "k - 1" rest sz rec] us "1.prems"(2,3) by (cases k) auto
  next
    case seq
    then obtain ds where ds: "v = VSeq ds" "rt_ok_list ds" "length (sdp_enc_list ds) < 256 ^ len_width t"
        "length (sdp_enc_list ds) < 2 ^ 31"
      using "1.prems"(1) by (auto split: sdp_val.splits)
    let ?L = "length (sdp_enc_list ds)" and ?w = "len_width t"
    obtain k' where k: "k = Suc (Suc k')" and k': "1 + 2 * ?L \<le> k'"
      using "1.prems"(2) seq ds(1) len_width_pos [OF seq(2)] 
      by (cases k; cases "k - 1") auto
    have b: "1 + int ?w + int ?L \<le> b" "1 \<le> b"
      using "1.prems"(3) seq ds(1) by auto
    have "seq_loop k' (sdp_enc_list ds @ rest) (b - (1 + int ?w)) (0 + int ?L) 0 [] rec
        = Ret ([] @ rx_list ds, 0 + int ?L, add_uuids (uuids_of_list ds) rec)"
      using "1.IH" seq ds k' b by (intro "1.IH") auto
    moreover have "drop (nat (1 + int ?w)) (t # put_be ?w ?L @ sdp_enc_list ds @ rest) = sdp_enc_list ds @ rest"
      by (simp add: nat_add_distrib)
    ultimately show ?thesis
      using seq ds b seqtype_enc [OF seq(2) ds(3,4)]
      by (simp add: k attr_safe_step attr_kind_seq)
  next
    case scal
    have "\<not> scalar_rt_ok t (VSeq ds)" for ds by (simp add: scalar_rt_ok_def)
    with scal show ?thesis
      using "1.prems" extract_scalar [of t v b "k - 1" rest sz rec]
      by (cases k) (auto split: sdp_val.splits)
  qed
next
  case (2 k)
  then show ?case by (cases k) simp_all
next
  case (3 d ds)
  let ?d = "length (sdp_enc d)" and ?ds = "length (sdp_enc_list ds)"
  have pos: "1 \<le> ?d" by (simp add: Suc_le_eq)
  obtain k' where k: "k = Suc k'" "2 * ?d \<le> k'" "1 + 2 * ?ds \<le> k'"
    using "3.prems"(2) pos by (cases k) auto
  have e: "sdp_extract_attr_safe k' (sdp_enc d @ sdp_enc_list ds @ rest) b 0 rec
      = Ret (Some (rx d), int ?d, add_uuids (uuids_of d) rec)"
    using "3.IH"(1) [of k' b "sdp_enc_list ds @ rest" 0 rec] "3.prems" k by simp
  have "seq_loop k' (sdp_enc_list ds @ rest) (b - int ?d) (n + int ?d + int ?ds) (n + int ?d) (acc @ [rx d])
        (add_uuids (uuids_of d) rec)
      = Ret ((acc @ [rx d]) @ rx_list ds, n + int ?d + int ?ds, add_uuids (uuids_of_list ds) (add_uuids (uuids_of d) rec))"
    using "3.prems" k by (intro "3.IH"(2)) auto
  with e pos show ?case
    by (simp add: k(1) add.assoc)
qed
subsection \<open>Records survive the trip through their PDU\<close>

lemma attr_replace_attrlist_cong:
  "attrlist r = attrlist s \<Longrightarrow> attrlist (sdp_attr_replace r a d) = attrlist (sdp_attr_replace s a d)"
  by (simp add: sdp_attr_replace_def Let_def data_get_cong [of r s] split: option.split)

lemma puts_attrlist_cong:
  "attrlist r = attrlist s \<Longrightarrow> attrlist (recs.puts ads r) = attrlist (recs.puts ads s)"
proof (induction ads arbitrary: r s)
  case (Cons x ads)
  obtain a d where x: "x = (a, d)" by fastforce
  show ?case
    using Cons.IH [OF attr_replace_attrlist_cong [OF Cons.prems]] by (simp add: x)
qed simp

lemma attrlist_pattern_add [simp]:
  "attrlist (sdp_pattern_add_uuid r u) = attrlist r" "attrlist (sdp_pattern_add_uuidseq r us) = attrlist r"
  by (simp add: sdp_pattern_add_uuid_def Let_def,
      induction us arbitrary: r, simp_all add: sdp_pattern_add_uuid_def Let_def)

lemma pattern_add_cong:
  "pattern r = pattern s \<Longrightarrow> pattern (sdp_pattern_add_uuidseq r us) = pattern (sdp_pattern_add_uuidseq s us)"
proof (induction us arbitrary: r s)
  case (Cons u us)
  have "pattern (sdp_pattern_add_uuid r u) = pattern (sdp_pattern_add_uuid s u)"
    using Cons.prems by (simp add: sdp_pattern_add_uuid_def Let_def)
  from Cons.IH [OF this] show ?case by simp
qed simp

lemma take_attr_ok:
  assumes "a = SDP_ATTR_RECORD_HANDLE \<longrightarrow> (\<exists>w. val d = VNum w)"
  obtains r' where "take_attr rec a d = Ret r'" "attrlist r' = attrlist (sdp_attr_replace rec a d)"
    "pattern r' = pattern rec" 
    "handle r' = (if a = SDP_ATTR_RECORD_HANDLE then (case val d of VNum w \<Rightarrow> ucast w | _ \<Rightarrow> 0) else handle rec)"
proof -
  have 1: "attrlist (sdp_attr_replace (rec\<lparr>handle := h\<rparr>) a d) = attrlist (sdp_attr_replace rec a d)"
    "attrlist (sdp_attr_replace (rec\<lparr>svclass := u\<rparr>) a d) = attrlist (sdp_attr_replace rec a d)" for h u a
    by (auto intro: attr_replace_attrlist_cong)
  have 2: "pattern (sdp_attr_replace r a d) = pattern r" "handle (sdp_attr_replace r a d) = handle r" for r a
    by (simp_all add: sdp_attr_replace_def Let_def split: option.split)
  show thesis
    using assms that by (cases "a = SDP_ATTR_RECORD_HANDLE") (auto simp: take_attr_def Let_def 1 2 split: if_splits)
qed

lemma rt_ok_gen_ok: "rt_ok d \<Longrightarrow> gen_ok d" "rt_ok_list ds \<Longrightarrow> gen_ok_list ds"
proof (induction d and ds rule: sdp_enc_sdp_enc_list.induct)
  case (1 t aid v us)
  have "scalar_src t v \<noteq> Fault" if "scalar_rt_ok t v"
  proof (cases v)
    case (VUuid u)
    with that show ?thesis by (cases u) (auto simp: scalar_rt_ok_def scalar_src_def)
  next
    case (VNum w)
    then have "t = SDP_DATA_NIL \<or> num_width t \<noteq> 0" using that by (simp add: scalar_rt_ok_def)
    then show ?thesis
      using VNum num_width_cases [of t] by (auto simp: scalar_src_def)
  qed (use that in \<open>auto simp: scalar_rt_ok_def scalar_src_def\<close>)
  with 1 show ?case by (cases "is_str t"; cases "is_seq_alt t") (auto split: sdp_val.splits)
qed simp_all


text \<open>The attributes as the parser receives them.\<close>

definition rx_attrs :: "sdp_data list \<Rightarrow> (u16 \<times> sdp_data) list" where
  "rx_attrs ds = map (\<lambda>d. (attrId d, rx d)) ds"

definition handle_num :: "sdp_data \<Rightarrow> bool" where
  "handle_num d \<longleftrightarrow> (attrId d = SDP_ATTR_RECORD_HANDLE \<longrightarrow> (\<exists>w. val (rx d) = VNum w))"

lemma length_attr_enc: "length (attr_enc d) = 3 + length (sdp_enc d)"
  by (simp add: attr_enc_def)

lemma pdu_loop_enc:
  assumes "\<forall>d \<in> set ds. rt_ok d \<and> handle_num d" and "1 + 2 * length (concat (map attr_enc ds)) \<le> k"
    and "int (length (concat (map attr_enc ds))) \<le> b"
  shows "\<exists>r'. extract_pdu_loop k (concat (map attr_enc ds) @ rest) b (n + int (length (concat (map attr_enc ds)))) n r
      = Ret r' \<and> attrlist r' = attrlist (recs.puts (rx_attrs ds) r)
      \<and> pattern r' = pattern (sdp_pattern_add_uuidseq r (concat (map uuids_of ds)))"
  using assms
proof (induction ds arbitrary: k b n r)
  case Nil
  then show ?case by (cases k) (simp_all add: rx_attrs_def)
next
  case (Cons d ds)
  let ?L = "length (concat (map attr_enc ds))" and ?n = "length (sdp_enc d)"
  let ?r1 = "sdp_pattern_add_uuidseq r (uuids_of d)"
  let ?tl = "concat (map attr_enc ds) @ rest"
  obtain k' where k: "k = Suc k'" "2 * ?n \<le> k'" "1 + 2 * ?L \<le> k'"
    using Cons.prems(2) by (cases k) (auto simp: length_attr_enc)
  have b: "3 + int ?n + int ?L \<le> b" using Cons.prems(3) by (simp add: length_attr_enc)
  have e: "sdp_extract_attr_safe k' (sdp_enc d @ ?tl) (b - 3) 0 (Some r) = Ret (Some (rx d), int ?n, Some ?r1)"
    using extract_enc(1) [of d k' "b - 3" ?tl 0 "Some r"] Cons.prems(1) k b by (simp add: add_uuids_def)
  have a: "of_nat (get_be (put_be 2 (unat (attrId d)))) = attrId d"
  proof -
    have "unat (attrId d) < 256 ^ 2" using unsigned_less [of "attrId d"] by simp
    then show ?thesis by (simp only: get_be_put_be_id) simp
  qed
  have h: "attrId d = SDP_ATTR_RECORD_HANDLE \<longrightarrow> (\<exists>w. val (rx d) = VNum w)"
    using Cons.prems(1) by (simp add: handle_num_def)
  obtain r2 where r2: "take_attr ?r1 (attrId d) (rx d) = Ret r2"
      "attrlist r2 = attrlist (sdp_attr_replace ?r1 (attrId d) (rx d))" "pattern r2 = pattern ?r1"
    using take_attr_ok [OF h, of ?r1] by metis
  obtain r' where IH: "extract_pdu_loop k' ?tl (b - (3 + int ?n)) (n + (3 + int ?n) + int ?L) (n + (3 + int ?n)) r2 = Ret r'"
      "attrlist r' = attrlist (recs.puts (rx_attrs ds) r2)"
      "pattern r' = pattern (sdp_pattern_add_uuidseq r2 (concat (map uuids_of ds)))"
    using Cons.IH [of k' "b - (3 + int ?n)" "n + (3 + int ?n)" r2] Cons.prems(1) k b by auto
  have "attrlist r2 = attrlist (sdp_attr_replace r (attrId d) (rx d))"
    unfolding r2(2) by (rule attr_replace_attrlist_cong) simp
  then have 1: "attrlist r' = attrlist (recs.puts (rx_attrs (d # ds)) r)"
    unfolding IH(2) by (simp add: rx_attrs_def) (rule puts_attrlist_cong)
  have 2: "pattern r' = pattern (sdp_pattern_add_uuidseq r (concat (map uuids_of (d # ds))))"
    unfolding IH(3) using pattern_add_cong [OF r2(3)] by (simp add: pattern_add_uuidseq_append)
  have dr: "drop (3 + ?n) (SDP_UINT16 # put_be 2 (unat (attrId d)) @ sdp_enc d @ ?tl) = ?tl"
    by (simp add: numeral_3_eq_3)
  have "extract_pdu_loop k (concat (map attr_enc (d # ds)) @ rest) b (n + int (length (concat (map attr_enc (d # ds))))) n r = Ret r'"
    using b e a r2(1) IH(1) dr
    by (simp add: k(1) attr_enc_def [of d] length_attr_enc short_of_def rd_append nat_add_distrib add.assoc)
  with 1 2 show ?case by blast
qed

lemma seqtype_image:
  assumes "body \<noteq> []" and "length body < 65536"
  obtains h t where "seq_image body = h @ body"
    "sdp_extract_seqtype_safe (seq_image body) (int (length (seq_image body))) 0 0 = Ret (int (length h), t, int (length body))"
proof (cases "length body + 2 \<le> 255")
  case True
  then show thesis
    using that [of "SDP_SEQ8 # put_be 1 (length body)"] assms seqtype_enc [of SDP_SEQ8 "length body" "2 + int (length body)" body 0 0]
    by (simp add: seq_image_def is_seq_alt_def len_width_def)
next
  case False
  then show thesis
    using that [of "SDP_SEQ16 # put_be 2 (length body)"] assms seqtype_enc [of SDP_SEQ16 "length body" "3 + int (length body)" body 0 0]
    by (simp add: seq_image_def is_seq_alt_def len_width_def)
qed

lemma map_of_rx_attrs:
  assumes "distinct (map attrId ds)"
  shows "map_of (rev (rx_attrs ds)) a = map_option rx (find (\<lambda>d. attrId d = a) ds)"
  using assms
proof (induction ds)
  case (Cons d ds)
  have "find (\<lambda>x. attrId x = attrId d) ds = None"
    using Cons.prems by (simp add: List.find_None_iff) (metis imageI)
  with Cons show ?case
    by (auto simp: rx_attrs_def map_add_def split: option.split)
qed (simp add: rx_attrs_def)

lemma data_get_find: "sdp_data_get rec a = find (\<lambda>d. attrId d = a) (attrlist rec)"
proof -
  have "sdp_list_find ds (Data 0 a (VNum 0) 0) sdp_attrid_comp_func = find (\<lambda>d. attrId d = a) ds" for ds
    by (induction ds) (simp_all add: attrc.cmp_eq)
  then show ?thesis by (simp add: sdp_data_get_def)
qed

lemma record_pdu_round_trip:
  assumes "record_inv rec" and "\<forall>d \<in> set (attrlist rec). rt_ok d \<and> handle_num d" and "attrs_fit (attrlist rec)"
    and "attrlist rec \<noteq> []" and "length (concat (map attr_enc (attrlist rec))) < 65536"
  obtains b where "sdp_gen_record_pdu rec = Ret b"
    "buf_used b = seq_image (concat (map attr_enc (attrlist rec)))"
    "\<And>k. 2 * length (buf_used b) \<le> k \<Longrightarrow>
       \<exists>rec'. sdp_extract_pdu_safe k (buf_used b) (int (length (buf_used b))) = Ret (rec', int (length (buf_used b)))
         \<and> (\<forall>a. sdp_data_get rec' a = map_option (\<lambda>d. set_attrId a (rx d)) (sdp_data_get rec a))
         \<and> pattern rec' = pattern (sdp_pattern_add_uuidseq sdp_record_alloc (concat (map uuids_of (attrlist rec))))"
proof -
  let ?ds = "attrlist rec"
  let ?body = "concat (map attr_enc ?ds)"
  have "\<forall>d \<in> set ?ds. gen_ok d" using assms(2) rt_ok_gen_ok by blast
  then obtain b where b: "sdp_gen_record_pdu rec = Ret b" "buf_used b = seq_image ?body"
    using gen_record_pdu_eq(1) assms(3) by blast
  have ne: "?body \<noteq> []" using assms(4) by (cases ?ds) (auto simp: attr_enc_def)
  obtain h t where h: "seq_image ?body = h @ ?body"
    "sdp_extract_seqtype_safe (seq_image ?body) (int (length (seq_image ?body))) 0 0 = Ret (int (length h), t, int (length ?body))"
    using seqtype_image [OF ne assms(5)] by blast
  have hn: "1 \<le> length h" using h ne by (cases h) (auto simp: seq_image_def split: if_splits)
  let ?r0 = "sdp_record_alloc\<lparr>attrlist := []\<rparr>"
  have r0: "?r0 = sdp_record_alloc" by (simp add: sdp_record_alloc_def)
  have "\<exists>rec'. sdp_extract_pdu_safe k (buf_used b) (int (length (buf_used b))) = Ret (rec', int (length (buf_used b)))
         \<and> (\<forall>a. sdp_data_get rec' a = map_option (\<lambda>d. set_attrId a (rx d)) (sdp_data_get rec a))
         \<and> pattern rec' = pattern (sdp_pattern_add_uuidseq sdp_record_alloc (concat (map uuids_of ?ds)))"
    if k: "2 * length (buf_used b) \<le> k" for k
  proof -
    have "1 + 2 * length ?body \<le> k" using k b(2) h(1) hn by simp
    then obtain r' where r': "extract_pdu_loop k ?body (int (length ?body)) (int (length ?body)) 0 ?r0 = Ret r'"
      "attrlist r' = attrlist (recs.puts (rx_attrs ?ds) ?r0)"
      "pattern r' = pattern (sdp_pattern_add_uuidseq ?r0 (concat (map uuids_of ?ds)))"
      using pdu_loop_enc [of ?ds k "int (length ?body)" "[]" 0 ?r0] assms(2) by auto
    have "sdp_data_get r' a = map_option (\<lambda>d. set_attrId a (rx d)) (sdp_data_get rec a)" for a
      using data_get_cong [OF r'(2), of a] recs.get_puts [OF record_inv_alloc, of "rx_attrs ?ds" a]
        map_of_rx_attrs [of ?ds a] assms(1)
      by (auto simp: r0 record_inv_def data_get_find [of rec] split: option.splits)
    then show ?thesis
      using r' h b(2) by (simp add: sdp_extract_pdu_safe_def r0)
  qed
  with that b show thesis by blast
qed

subsection \<open>Properties\<close>

text \<open>
  C2: a data element that is generated and then parsed comes back as it was (numbers cut to
  their width, strings with a terminator, see \<open>rx\<close>), for nested sequences of any depth,
  whatever follows it in the packet. The parser reports exactly the bytes of the encoding
  as consumed and adds the UUIDs it met, in order, to the pattern of the record. Fuel of
  twice the length of the encoding is enough.
\<close>

theorem element_round_trip:
  assumes "rt_ok d" and "2 * length (sdp_enc d) \<le> k" and "int (length (sdp_enc d)) \<le> bufsize"
  shows "sdp_extract_attr_safe k (sdp_enc d @ rest) bufsize sz rec
    = Ret (Some (rx d), sz + int (length (sdp_enc d)),
           map_option (\<lambda>r. sdp_pattern_add_uuidseq r (uuids_of d)) rec)"
  using extract_enc(1) [OF assms] by (simp add: add_uuids_def)

theorem element_round_trip_witness:
  "sdp_extract_attr_safe 10 (sdp_enc (Data SDP_SEQ8 4 (VSeq [Data SDP_UINT8 0 (VNum 0x107) 2]) 4) @ [1, 2]) 6 0 None
     = Ret (Some (Data SDP_SEQ8 0 (VSeq [Data SDP_UINT8 0 (VNum 7) 0]) 0), 4, None)"
  using element_round_trip [of "Data SDP_SEQ8 4 (VSeq [Data SDP_UINT8 0 (VNum 0x107) 2]) 4" 10 6 "[1, 2]" 0 None]
  by (simp add: is_str_def is_seq_alt_def scalar_rt_ok_def num_width_def scalar_bytes_def len_width_def
      rx_scalar_def take_bit_eq_mod)

text \<open>
  C3: a record that is turned into a PDU and parsed again has the same attributes under
  the same ids, and its pattern is that of the UUIDs in its attributes. The record has to
  have an attribute, its attributes have to survive on their own and fit the 256-byte
  array, the record handle has to be a number, and the whole has to fit a 16-bit size.
\<close>

theorem record_round_trip:
  assumes "record_inv rec" and "\<forall>d \<in> set (attrlist rec). rt_ok d \<and> handle_num d"
    and "\<forall>d \<in> set (attrlist rec). length (attr_enc d) \<le> 256"
    and "attrlist rec \<noteq> []" and "length (concat (map attr_enc (attrlist rec))) < 65536"
  shows "\<exists>b. sdp_gen_record_pdu rec = Ret b \<and>
    (\<forall>k \<ge> 2 * length (buf_used b). \<exists>rec'.
        sdp_extract_pdu_safe k (buf_used b) (int (length (buf_used b))) = Ret (rec', int (length (buf_used b)))
      \<and> (\<forall>a. sdp_data_get rec' a = map_option (\<lambda>d. set_attrId a (rx d)) (sdp_data_get rec a))
      \<and> pattern rec' = pattern (sdp_pattern_add_uuidseq sdp_record_alloc (concat (map uuids_of (attrlist rec)))))"
proof -
  have "attrs_fit (attrlist rec)" using assms(3) by (simp add: attrs_fit_def)
  then show ?thesis
    using record_pdu_round_trip [OF assms(1,2) _ assms(4,5)] by blast
qed

theorem record_round_trip_witness:
  "\<exists>b. sdp_gen_record_pdu (snd (sdp_attr_add sdp_record_alloc 5 (Data SDP_UINT8 0 (VNum 7) 2))) = Ret b \<and>
    (\<forall>k \<ge> 2 * length (buf_used b). \<exists>rec'.
        sdp_extract_pdu_safe k (buf_used b) (int (length (buf_used b))) = Ret (rec', int (length (buf_used b)))
      \<and> (\<forall>a. sdp_data_get rec' a = map_option (\<lambda>d. set_attrId a (rx d))
               (sdp_data_get (snd (sdp_attr_add sdp_record_alloc 5 (Data SDP_UINT8 0 (VNum 7) 2))) a))
      \<and> pattern rec' = pattern (sdp_pattern_add_uuidseq sdp_record_alloc (concat (map uuids_of
               (attrlist (snd (sdp_attr_add sdp_record_alloc 5 (Data SDP_UINT8 0 (VNum 7) 2))))))))"
  by (rule record_round_trip)
    (simp_all add: sdp_record_alloc_def record_inv_def sdp_attr_add_def sdp_data_get_def set_attrId_def
      attr_enc_def handle_num_def scalar_rt_ok_def num_width_def is_str_def is_seq_alt_def scalar_bytes_def)

end
