(* ===== verification/SDP_ServiceDB.thy ===== *)
theory SDP_ServiceDB
  imports SDP_RoundTrip
begin

section \<open>The service repository of the server\<close>

text \<open>
  \<open>utils/sdpd/servicedb.c\<close> and \<open>utils/sdpd/cstate.c\<close>. The repository, the index of
  records by socket and the server's own record pointer share records, and records are
  freed through one of them, so records live in a heap: \<open>rec_heap\<close> maps the addresses in
  use to records, an address that is not mapped is dangling, and following it is a \<open>Fault\<close>.
  Allocation takes an address never used before.

  Record handles are 32-bit; the ordering callbacks subtract them and convert the
  difference to \<open>int\<close>. \<open>sdp_svcdb_reset\<close>, which the server calls once when it stops,
  is not part of the model.
\<close>

type_synonym bdaddr = "byte list"
type_synonym addr = nat

definition BDADDR_ANY :: bdaddr where "BDADDR_ANY = replicate 6 0"

definition bacmp :: "bdaddr \<Rightarrow> bdaddr \<Rightarrow> int" where
  "bacmp b1 b2 = memcmp b1 b2"

record sdp_access =
  acc_handle :: u32
  acc_device :: bdaddr

record sdp_indexed =
  idx_sock :: int
  idx_record :: addr

record sdp_db =
  rec_heap :: "addr \<Rightarrow> sdp_record option"
  next_rec :: addr
  service_db :: "addr list"
  access_db :: "sdp_access list"
  socket_index :: "sdp_indexed list"

subsection \<open>Records on the heap\<close>

definition deref :: "sdp_db \<Rightarrow> addr \<Rightarrow> sdp_record run" where
  "deref st a = (case rec_heap st a of Some r \<Rightarrow> Ret r | None \<Rightarrow> Fault)"

definition rec_store :: "sdp_db \<Rightarrow> addr \<Rightarrow> sdp_record \<Rightarrow> sdp_db" where
  "rec_store st a r = st\<lparr>rec_heap := (rec_heap st)(a \<mapsto> r)\<rparr>"

definition rec_new :: "sdp_db \<Rightarrow> sdp_record \<Rightarrow> addr \<times> sdp_db" where
  "rec_new st r = (next_rec st, st\<lparr>rec_heap := (rec_heap st)(next_rec st \<mapsto> r), next_rec := Suc (next_rec st)\<rparr>)"

definition sdp_record_free :: "sdp_db \<Rightarrow> addr \<Rightarrow> sdp_db run" where
  "sdp_record_free st a =
     run_bind (deref st a) (\<lambda>_. Ret (st\<lparr>rec_heap := (rec_heap st)(a := None)\<rparr>))"

subsection \<open>The repository\<close>

definition record_sort :: "sdp_record \<Rightarrow> sdp_record \<Rightarrow> int" where
  "record_sort r1 r2 = sint (handle r1 - handle r2)"

definition access_sort :: "sdp_access \<Rightarrow> sdp_access \<Rightarrow> int" where
  "access_sort a1 a2 = sint (acc_handle a1 - acc_handle a2)"

definition compare_indices :: "sdp_indexed \<Rightarrow> sdp_indexed \<Rightarrow> int" where
  "compare_indices i1 i2 = idx_sock i1 - idx_sock i2"

text \<open>
  \<open>sdp_list_find\<close> and \<open>sdp_list_insert_sorted\<close> on lists of record pointers, with the
  dereferences their callback makes node by node.
\<close>

fun record_list_find :: "(addr \<Rightarrow> sdp_record option) \<Rightarrow> addr list \<Rightarrow> sdp_record \<Rightarrow> addr option run" where
  "record_list_find h [] r = Ret None"
| "record_list_find h (a # as) r =
     (case h a of
        None \<Rightarrow> Fault
      | Some x \<Rightarrow> if record_sort x r = 0 then Ret (Some a) else record_list_find h as r)"

fun record_list_insert :: "(addr \<Rightarrow> sdp_record option) \<Rightarrow> addr list \<Rightarrow> addr \<Rightarrow> sdp_record \<Rightarrow> addr list run" where
  "record_list_insert h [] d r = Ret [d]"
| "record_list_insert h (a # as) d r =
     (case h a of
        None \<Rightarrow> Fault
      | Some x \<Rightarrow> if record_sort x r \<ge> 0 then Ret (d # a # as)
                  else run_bind (record_list_insert h as d r) (\<lambda>l. Ret (a # l)))"

definition record_locate :: "sdp_db \<Rightarrow> u32 \<Rightarrow> addr option run" where
  "record_locate st h = record_list_find (rec_heap st) (service_db st) (sdp_record_alloc\<lparr>handle := h\<rparr>)"

definition access_locate :: "sdp_db \<Rightarrow> u32 \<Rightarrow> sdp_access option" where
  "access_locate st h = sdp_list_find (access_db st) \<lparr>acc_handle = h, acc_device = BDADDR_ANY\<rparr> access_sort"

definition sdp_record_add :: "bdaddr \<Rightarrow> addr \<Rightarrow> sdp_db \<Rightarrow> sdp_db run" where
  "sdp_record_add device a st =
     run_bind (deref st a) (\<lambda>r.
     run_bind (record_list_insert (rec_heap st) (service_db st) a r) (\<lambda>db.
       Ret (st\<lparr>service_db := db,
               access_db := sdp_list_insert_sorted (access_db st)
                              \<lparr>acc_handle = handle r, acc_device = device\<rparr> access_sort\<rparr>)))"

definition sdp_record_find :: "sdp_db \<Rightarrow> u32 \<Rightarrow> addr option run" where
  "sdp_record_find st h = record_locate st h"

definition sdp_record_remove :: "u32 \<Rightarrow> sdp_db \<Rightarrow> (int \<times> sdp_db) run" where
  "sdp_record_remove h st =
     run_bind (record_locate st h) (\<lambda>p.
       case p of
         None \<Rightarrow> Ret (-1, st)
       | Some a \<Rightarrow>
           let st1 = st\<lparr>service_db := sdp_list_remove (service_db st) a\<rparr>
           in Ret (0, case access_locate st1 h of
                        None \<Rightarrow> st1
                      | Some x \<Rightarrow> st1\<lparr>access_db := sdp_list_remove (access_db st1) x\<rparr>))"

definition sdp_get_record_list :: "sdp_db \<Rightarrow> addr list" where
  "sdp_get_record_list st = service_db st"

definition sdp_get_access_list :: "sdp_db \<Rightarrow> sdp_access list" where
  "sdp_get_access_list st = access_db st"

definition sdp_check_access :: "sdp_db \<Rightarrow> u32 \<Rightarrow> bdaddr \<Rightarrow> bool" where
  "sdp_check_access st h device =
     (case access_locate st h of
        None \<Rightarrow> True
      | Some a \<Rightarrow> \<not> (bacmp (acc_device a) device \<noteq> 0 \<and> bacmp (acc_device a) BDADDR_ANY \<noteq> 0
                    \<and> bacmp device BDADDR_ANY \<noteq> 0))"

text \<open>The \<open>while\<close> loop of \<open>sdp_next_handle\<close>, with fuel: it ends when a handle is free.\<close>

fun next_handle_loop :: "(u32 \<Rightarrow> 'a option run) \<Rightarrow> nat \<Rightarrow> u32 \<Rightarrow> u32 run" where
  "next_handle_loop lookup 0 h = NoFuel"
| "next_handle_loop lookup (Suc k) h =
     run_bind (lookup h) (\<lambda>r. case r of None \<Rightarrow> Ret h | Some _ \<Rightarrow> next_handle_loop lookup k (h + 1))"

definition sdp_next_handle :: "nat \<Rightarrow> sdp_db \<Rightarrow> u32 run" where
  "sdp_next_handle fuel st = next_handle_loop (sdp_record_find st) fuel 0x10000"

subsection \<open>Records by socket\<close>

definition sdp_svcdb_set_collectable :: "addr \<Rightarrow> int \<Rightarrow> sdp_db \<Rightarrow> sdp_db" where
  "sdp_svcdb_set_collectable a sock st =
     st\<lparr>socket_index := sdp_list_insert_sorted (socket_index st)
          \<lparr>idx_sock = sock, idx_record = a\<rparr> compare_indices\<rparr>"

fun collect_first :: "sdp_indexed list \<Rightarrow> addr \<Rightarrow> sdp_indexed list" where
  "collect_first [] a = []"
| "collect_first (i # is) a = (if a = idx_record i then is else i # collect_first is a)"

definition sdp_svcdb_collect :: "addr \<Rightarrow> sdp_db \<Rightarrow> sdp_db" where
  "sdp_svcdb_collect a st = st\<lparr>socket_index := collect_first (socket_index st) a\<rparr>"

text \<open>
  The loop of \<open>sdp_svcdb_collect_all\<close> unlinks entries from the index as it goes; the model
  runs over the entries and returns those that stay.
\<close>

fun collect_loop :: "sdp_indexed list \<Rightarrow> int \<Rightarrow> sdp_db \<Rightarrow> (sdp_indexed list \<times> sdp_db) run" where
  "collect_loop [] sock st = Ret ([], st)"
| "collect_loop (i # is) sock st =
     (if idx_sock i = sock then
        run_bind (deref st (idx_record i)) (\<lambda>r.
        run_bind (sdp_record_remove (handle r) st) (\<lambda>(_, st1).
        run_bind (sdp_record_free st1 (idx_record i)) (collect_loop is sock)))
      else if idx_sock i > sock then Ret (i # is, st)
      else run_bind (collect_loop is sock st) (\<lambda>(l, st1). Ret (i # l, st1)))"

definition sdp_svcdb_collect_all :: "int \<Rightarrow> sdp_db \<Rightarrow> sdp_db run" where
  "sdp_svcdb_collect_all sock st =
     run_bind (collect_loop (socket_index st) sock st) (\<lambda>(l, st1). Ret (st1\<lparr>socket_index := l\<rparr>))"

subsection \<open>Cached responses\<close>

text \<open>
  \<open>cstate.c\<close>: responses kept for continuation requests, newest first, keyed by the second
  they were made in. The clock (\<open>gettimeofday\<close>) is an argument.
\<close>

record cached_rsp =
  cr_timestamp :: u32
  cr_buf :: sdp_buf

fun sdp_get_cached_rsp :: "cached_rsp list \<Rightarrow> u32 \<Rightarrow> sdp_buf option" where
  "sdp_get_cached_rsp [] ts = None"
| "sdp_get_cached_rsp (p # ps) ts = (if cr_timestamp p = ts then Some (cr_buf p) else sdp_get_cached_rsp ps ts)"

definition sdp_cstate_alloc_buf :: "cached_rsp list \<Rightarrow> sdp_buf \<Rightarrow> u32 \<Rightarrow> (u32 \<times> cached_rsp list) run" where
  "sdp_cstate_alloc_buf cs b now =
     (if data_size b \<le> buf_size b
      then Ret (now, \<lparr>cr_timestamp = now, cr_buf = \<lparr>buf_bytes = buf_used b, data_size = data_size b\<rparr>\<rparr> # cs)
      else Fault)"

subsection \<open>The orderings\<close>

lemma record_sort_zero [simp]: "record_sort r s = 0 \<longleftrightarrow> handle r = handle s"
  by (simp add: record_sort_def signed_eq_0_iff)

lemma access_sort_zero [simp]: "access_sort x y = 0 \<longleftrightarrow> acc_handle x = acc_handle y"
  by (simp add: access_sort_def signed_eq_0_iff)

text \<open>The sign of a 32-bit difference tells the order of handles below \<open>2^31\<close>.\<close>

lemma sint_diff_nonneg:
  fixes x y :: u32
  assumes "uint x < 2 ^ 31" and "uint y < 2 ^ 31"
  shows "0 \<le> sint (x - y) \<longleftrightarrow> y \<le> x"
proof -
  have p: "0 \<le> uint x" "0 \<le> uint y" by simp_all
  have "sint (x - y) = signed_take_bit 31 (uint x - uint y)"
    by (simp only: word_sub_wi sint_sbintrunc') simp
  also have "\<dots> = uint x - uint y"
    using assms p by (intro signed_take_bit_int_eq_self) linarith+
  finally show ?thesis by (simp add: word_le_def)
qed

interpretation accc: sdp_comparator access_sort acc_handle "\<lambda>x. uint (acc_handle x) < 2 ^ 31"
  by unfold_locales (simp_all add: access_sort_def signed_eq_0_iff sint_diff_nonneg)

interpretation idxc: sdp_comparator compare_indices idx_sock "\<lambda>_. True"
  by unfold_locales (simp_all add: compare_indices_def)

interpretation rech: sdp_comparator "\<lambda>a b. record_sort (the (h a)) (the (h b))" "\<lambda>a. handle (the (h a))"
    "\<lambda>a. uint (handle (the (h a))) < 2 ^ 31" for h :: "addr \<Rightarrow> sdp_record option"
  by unfold_locales (simp_all add: record_sort_def signed_eq_0_iff sint_diff_nonneg)

lemma find_by_key:
  "(\<And>x. x \<in> set xs \<Longrightarrow> (f x u = 0) = P x) \<Longrightarrow> sdp_list_find xs u f = find P xs"
  by (induction xs) auto

lemma remove_by_key:
  "distinct (map k xs) \<Longrightarrow> x \<in> set xs \<Longrightarrow> sdp_list_remove xs x = filter (\<lambda>y. k y \<noteq> k x) xs"
proof (induction xs)
  case (Cons y xs)
  have "filter (\<lambda>z. k z \<noteq> k y) xs = xs"
    using Cons.prems(1) by (intro filter_True) (auto simp: image_iff)
  with Cons show ?case by auto
qed simp

lemma map_insert_sorted:
  "(\<And>x. x \<in> set xs \<Longrightarrow> f x d = g (k x) (k d)) \<Longrightarrow>
   map k (sdp_list_insert_sorted xs d f) = sdp_list_insert_sorted (map k xs) (k d) g"
  by (induction xs) auto

lemma find_insert_fresh:
  "(P d \<Longrightarrow> \<forall>x \<in> set xs. \<not> P x) \<Longrightarrow>
   find P (sdp_list_insert_sorted xs d f) = (if P d then Some d else find P xs)"
  by (induction xs) auto

subsection \<open>The invariant\<close>

definition rhandle :: "sdp_db \<Rightarrow> addr \<Rightarrow> u32" where
  "rhandle st a = handle (the (rec_heap st a))"

text \<open>
  Every pointer in the repository is live, no two records have the same handle, the access
  list has the same handles in the same order, and addresses from \<open>next_rec\<close> on are free.
\<close>

definition repo_inv :: "sdp_db \<Rightarrow> bool" where
  "repo_inv st \<longleftrightarrow>
     (\<forall>a \<in> set (service_db st). rec_heap st a \<noteq> None)
   \<and> distinct (map (rhandle st) (service_db st))
   \<and> map acc_handle (access_db st) = map (rhandle st) (service_db st)
   \<and> (\<forall>a \<ge> next_rec st. rec_heap st a = None)"

text \<open>The index only holds records of the repository, each once, sorted by socket.\<close>

definition idx_inv :: "sdp_indexed list \<Rightarrow> sdp_db \<Rightarrow> bool" where
  "idx_inv is st \<longleftrightarrow>
     idx_record ` set is \<subseteq> set (service_db st) \<and> distinct (map idx_record is) \<and> sorted (map idx_sock is)"

definition db_inv :: "sdp_db \<Rightarrow> bool" where
  "db_inv st \<longleftrightarrow> repo_inv st \<and> idx_inv (socket_index st) st"

definition lookup :: "sdp_db \<Rightarrow> u32 \<Rightarrow> addr option" where
  "lookup st h = find (\<lambda>a. rhandle st a = h) (service_db st)"

lemma record_list_find_eq:
  "\<forall>a \<in> set as. h a \<noteq> None \<Longrightarrow>
   record_list_find h as r = Ret (find (\<lambda>a. handle (the (h a)) = handle r) as)"
  by (induction as) auto

lemma record_list_insert_eq:
  assumes "\<forall>a \<in> set as. h a \<noteq> None" and "h d = Some r"
  shows "record_list_insert h as d r = Ret (sdp_list_insert_sorted as d (\<lambda>a b. record_sort (the (h a)) (the (h b))))"
  using assms by (induction as) auto

lemma locate_eq: "repo_inv st \<Longrightarrow> record_locate st h = Ret (lookup st h)"
  by (simp add: record_locate_def repo_inv_def record_list_find_eq lookup_def rhandle_def)

lemma find_eq: "repo_inv st \<Longrightarrow> sdp_record_find st h = Ret (lookup st h)"
  by (simp add: sdp_record_find_def locate_eq)

lemma lookup_Some: "lookup st h = Some a \<Longrightarrow> a \<in> set (service_db st) \<and> rhandle st a = h"
  by (auto simp: lookup_def find_Some_iff)

lemma lookup_None: "lookup st h = None \<longleftrightarrow> h \<notin> rhandle st ` set (service_db st)"
  by (auto simp: lookup_def List.find_None_iff)

lemma lookup_mem:
  assumes "repo_inv st" and "a \<in> set (service_db st)"
  shows "lookup st (rhandle st a) = Some a"
proof -
  have "lookup st (rhandle st a) \<noteq> None" using assms(2) by (auto simp: lookup_None)
  then obtain b where b: "lookup st (rhandle st a) = Some b" by blast
  with lookup_Some [OF b] assms show ?thesis
    by (auto simp: repo_inv_def distinct_map inj_on_def)
qed

lemma access_locate_eq: "access_locate st h = find (\<lambda>x. acc_handle x = h) (access_db st)"
  unfolding access_locate_def by (rule find_by_key) simp

lemma access_locate_None:
  assumes "repo_inv st"
  shows "access_locate st h = None \<longleftrightarrow> lookup st h = None"
proof -
  have "acc_handle ` set (access_db st) = rhandle st ` set (service_db st)"
    using assms by (metis repo_inv_def image_set)
  moreover have "access_locate st h = None \<longleftrightarrow> h \<notin> acc_handle ` set (access_db st)"
    by (auto simp: access_locate_eq List.find_None_iff)
  ultimately show ?thesis by (simp add: lookup_None)
qed

text \<open>What \<open>sdp_check_access\<close> promises for a record registered for a device.\<close>

definition access_granted :: "bdaddr \<Rightarrow> bdaddr \<Rightarrow> bool" where
  "access_granted device d \<longleftrightarrow> device = d \<or> device = BDADDR_ANY \<or> d = BDADDR_ANY"

lemma memcmp_zero: "length xs = length ys \<Longrightarrow> memcmp xs ys = 0 \<longleftrightarrow> xs = ys"
  by (induction xs ys rule: memcmp.induct) auto

lemma check_access_Some:
  "access_locate st h = Some x \<Longrightarrow> length (acc_device x) = 6 \<Longrightarrow> length d = 6 \<Longrightarrow>
   sdp_check_access st h d = access_granted (acc_device x) d"
  by (auto simp: sdp_check_access_def bacmp_def access_granted_def memcmp_zero BDADDR_ANY_def)

lemma check_access_cong: "access_locate st' g = access_locate st h \<Longrightarrow> sdp_check_access st' g = sdp_check_access st h"
  by (simp add: fun_eq_iff sdp_check_access_def)

lemma record_add_effect:
  assumes "repo_inv st" and "rec_heap st a = Some r" and "lookup st (handle r) = None"
  obtains st' where "sdp_record_add device a st = Ret st'" "repo_inv st'"
    "rec_heap st' = rec_heap st" "next_rec st' = next_rec st" "socket_index st' = socket_index st"
    "set (service_db st') = insert a (set (service_db st))"
    "lookup st' = (lookup st)(handle r \<mapsto> a)"
    "\<And>h. access_locate st' h = (if h = handle r then Some \<lparr>acc_handle = h, acc_device = device\<rparr> else access_locate st h)"
proof -
  let ?cmp = "\<lambda>a b. record_sort (the (rec_heap st a)) (the (rec_heap st b))"
  let ?acc = "\<lparr>acc_handle = handle r, acc_device = device\<rparr>"
  define st' where "st' = st\<lparr>service_db := sdp_list_insert_sorted (service_db st) a ?cmp,
    access_db := sdp_list_insert_sorted (access_db st) ?acc access_sort\<rparr>"
  have live: "\<forall>b \<in> set (service_db st). rec_heap st b \<noteq> None" using assms(1) by (simp add: repo_inv_def)
  have add: "sdp_record_add device a st = Ret st'"
    using assms(2) record_list_insert_eq [OF live assms(2)]
    by (simp add: sdp_record_add_def deref_def st'_def)
  have rh: "rhandle st' = rhandle st" by (simp add: fun_eq_iff rhandle_def st'_def)
  have ra: "rhandle st a = handle r" using assms(2) by (simp add: rhandle_def)
  let ?g = "\<lambda>x y. sint (x - y :: u32)"
  have k1: "map (rhandle st) (service_db st') = sdp_list_insert_sorted (map (rhandle st) (service_db st)) (rhandle st a) ?g"
    by (simp add: st'_def map_insert_sorted [where g = ?g] record_sort_def rhandle_def)
  have k2: "map acc_handle (access_db st') = sdp_list_insert_sorted (map acc_handle (access_db st)) (handle r) ?g"
    by (simp add: st'_def map_insert_sorted [where g = ?g and k = acc_handle] access_sort_def)
  have fresh: "handle r \<notin> rhandle st ` set (service_db st)" using assms(3) by (simp add: lookup_None)
  have inv: "repo_inv st'"
    unfolding repo_inv_def rh k1 k2
    using assms(1,2) fresh ra by (auto simp: repo_inv_def st'_def)
  have "acc_handle ` set (access_db st) = rhandle st ` set (service_db st)"
    using assms(1) by (metis repo_inv_def image_set)
  then have fd: "\<forall>x \<in> set (service_db st). rhandle st x \<noteq> handle r"
    and fa: "\<forall>x \<in> set (access_db st). acc_handle x \<noteq> handle r"
    using fresh by (metis imageI)+
  have lk: "lookup st' = (lookup st)(handle r \<mapsto> a)"
    unfolding lookup_def rh fun_eq_iff
  proof
    fix h
    show "find (\<lambda>b. rhandle st b = h) (service_db st') = ((\<lambda>h. find (\<lambda>b. rhandle st b = h) (service_db st))(handle r \<mapsto> a)) h"
      using fd find_insert_fresh [of "\<lambda>b. rhandle st b = h" a "service_db st"] by (auto simp: st'_def ra)
  qed
  have ac: "access_locate st' h = (if h = handle r then Some \<lparr>acc_handle = h, acc_device = device\<rparr> else access_locate st h)" for h
    using fa find_insert_fresh [of "\<lambda>x. acc_handle x = h" ?acc "access_db st"] by (auto simp: access_locate_eq st'_def)
  show thesis
    by (rule that [OF add inv _ _ _ _ lk ac]) (simp_all add: st'_def)
qed

text \<open>Handles below \<open>2^31\<close> stay in ascending order in both lists of the repository.\<close>

lemma add_keeps_order:
  assumes "repo_inv st" and "rec_heap st a = Some r" and "uint (handle r) < 2 ^ 31"
    and "rech.ordered (rec_heap st) (service_db st)" and "accc.ordered (access_db st)"
    and "sdp_record_add device a st = Ret st'"
  shows "rech.ordered (rec_heap st') (service_db st') \<and> accc.ordered (access_db st')"
proof -
  have "\<forall>b \<in> set (service_db st). rec_heap st b \<noteq> None" using assms(1) by (simp add: repo_inv_def)
  with assms have "st' = st\<lparr>service_db := sdp_list_insert_sorted (service_db st) a
        (\<lambda>a b. record_sort (the (rec_heap st a)) (the (rec_heap st b))),
      access_db := sdp_list_insert_sorted (access_db st) \<lparr>acc_handle = handle r, acc_device = device\<rparr> access_sort\<rparr>"
    by (simp add: sdp_record_add_def deref_def record_list_insert_eq)
  then show ?thesis
    using rech.ordered_insert [OF assms(4), of a] accc.ordered_insert [OF assms(5), of "\<lparr>acc_handle = handle r, acc_device = device\<rparr>"]
      assms(2,3) by simp
qed

lemma filter_find_other: "(\<And>x. P x \<Longrightarrow> Q x) \<Longrightarrow> find P (filter Q xs) = find P xs"
  by (induction xs) auto

lemma record_remove_effect:
  assumes "repo_inv st" and "lookup st h = Some a"
  obtains st' where "sdp_record_remove h st = Ret (0, st')" "repo_inv st'"
    "rec_heap st' = rec_heap st" "next_rec st' = next_rec st" "socket_index st' = socket_index st"
    "service_db st' = filter (\<lambda>b. b \<noteq> a) (service_db st)"
    "lookup st' = (lookup st)(h := None)"
    "\<And>h'. access_locate st' h' = (if h' = h then None else access_locate st h')"
proof -
  have a: "a \<in> set (service_db st)" "rhandle st a = h" using lookup_Some [OF assms(2)] by auto
  have dk: "distinct (map (rhandle st) (service_db st))" and keys: "map acc_handle (access_db st) = map (rhandle st) (service_db st)"
    using assms(1) by (auto simp: repo_inv_def)
  then have "h \<in> acc_handle ` set (access_db st)"
    using a by (metis image_eqI image_set)
  then obtain x where xl: "access_locate st h = Some x"
    by (cases "access_locate st h") (auto simp: access_locate_eq List.find_None_iff)
  then have x: "access_locate st h = Some x" "x \<in> set (access_db st)" "acc_handle x = h"
    by (auto simp: access_locate_eq find_Some_iff)
  define st' where "st' = st\<lparr>service_db := filter (\<lambda>b. rhandle st b \<noteq> h) (service_db st),
    access_db := filter (\<lambda>y. acc_handle y \<noteq> h) (access_db st)\<rparr>"
  have al: "access_locate (st\<lparr>service_db := l\<rparr>) h = access_locate st h" for l by (simp add: access_locate_def)
  have rm: "sdp_record_remove h st = Ret (0, st')"
    using locate_eq [OF assms(1)] assms(2) x a dk keys
      remove_by_key [of "rhandle st" "service_db st" a] remove_by_key [of acc_handle "access_db st" x]
    by (simp add: sdp_record_remove_def Let_def al st'_def)
  have rh: "rhandle st' = rhandle st" by (simp add: fun_eq_iff rhandle_def st'_def)
  have fm: "map k (filter (\<lambda>y. k y \<noteq> h) ys) = filter (\<lambda>z. z \<noteq> h) (map k ys)" for k and ys :: "'z list"
    by (induction ys) auto
  have inv: "repo_inv st'"
    unfolding repo_inv_def rh using assms(1) dk keys
    by (auto simp: repo_inv_def st'_def fm)
  have sd: "service_db st' = filter (\<lambda>b. b \<noteq> a) (service_db st)"
    unfolding st'_def using a dk by (auto intro!: filter_cong simp: distinct_map inj_on_def)
  have lk: "lookup st' = (lookup st)(h := None)"
    unfolding lookup_def rh fun_eq_iff
    by (auto simp: st'_def List.find_None_iff filter_find_other)
  have ac: "access_locate st' h' = (if h' = h then None else access_locate st h')" for h'
    by (auto simp: access_locate_eq st'_def List.find_None_iff filter_find_other)
  show thesis
    by (rule that [OF rm inv _ _ _ sd lk ac]) (simp_all add: st'_def)
qed


lemma record_remove_missing:
  "repo_inv st \<Longrightarrow> lookup st h = None \<Longrightarrow> sdp_record_remove h st = Ret (-1, st)"
  by (simp add: sdp_record_remove_def locate_eq)

subsection \<open>Collecting the records of a socket\<close>

lemma free_effect:
  assumes "repo_inv st" and "rec_heap st a = Some r" and "a \<notin> set (service_db st)"
  obtains st' where "sdp_record_free st a = Ret st'" "repo_inv st'"
    "service_db st' = service_db st" "socket_index st' = socket_index st" "lookup st' = lookup st"
    "access_db st' = access_db st"
    "rec_heap st' = (rec_heap st)(a := None)"
proof -
  define st' where "st' = st\<lparr>rec_heap := (rec_heap st)(a := None)\<rparr>"
  have rh: "rhandle st' b = rhandle st b" if "b \<in> set (service_db st)" for b
    using that assms(3) by (auto simp: rhandle_def st'_def)
  have flds: "service_db st' = service_db st" "access_db st' = access_db st" "next_rec st' = next_rec st"
     "rec_heap st' = (rec_heap st)(a := None)"
    by (simp_all add: st'_def)
  have m: "map (rhandle st') (service_db st) = map (rhandle st) (service_db st)" using rh by simp
  have "find (\<lambda>b. rhandle st' b = h) (service_db st) = find (\<lambda>b. rhandle st b = h) (service_db st)" for h
    using rh by (intro find_cong) auto
  then have lk: "lookup st' = lookup st" by (simp add: fun_eq_iff lookup_def) (simp add: st'_def)
  have inv: "repo_inv st'"
    using assms by (simp add: repo_inv_def flds m) fastforce
  show thesis
    by (rule that [OF _ inv _ _ lk]) (simp_all add: st'_def sdp_record_free_def deref_def assms(2))
qed

definition socket_records :: "sdp_indexed list \<Rightarrow> int \<Rightarrow> addr set" where
  "socket_records is sock = idx_record ` set (filter (\<lambda>i. idx_sock i = sock) is)"

lemma socket_records_simps [simp]:
  "socket_records [] sock = {}"
  "socket_records (i # is) sock =
     (if idx_sock i = sock then insert (idx_record i) (socket_records is sock) else socket_records is sock)"
  by (simp_all add: socket_records_def)

lemma socket_records_greater: "\<forall>i \<in> set is. idx_sock i > sock \<Longrightarrow> socket_records is sock = {}"
  by (auto simp: socket_records_def)

text \<open>
  What the loop leaves: the entries of the other sockets; the records of this socket are
  out of the repository and freed; every other record stays.
\<close>

lemma collect_loop_effect:
  assumes "repo_inv st" and "idx_inv is st"
  shows "\<exists>st'. collect_loop is sock st = Ret (filter (\<lambda>i. idx_sock i \<noteq> sock) is, st') \<and> repo_inv st'
     \<and> service_db st' = filter (\<lambda>a. a \<notin> socket_records is sock) (service_db st)
     \<and> (\<forall>a. rec_heap st' a = (if a \<in> socket_records is sock then None else rec_heap st a))
     \<and> socket_index st' = socket_index st"
  using assms
proof (induction "is" arbitrary: st)
  case (Cons i "is")
  let ?a = "idx_record i"
  consider "idx_sock i = sock" | "idx_sock i > sock" | "idx_sock i < sock" by linarith
  then show ?case
  proof cases
    case 1
    have a: "?a \<in> set (service_db st)" using Cons.prems(2) by (simp add: idx_inv_def)
    then obtain r where r: "rec_heap st ?a = Some r" using Cons.prems(1) by (auto simp: repo_inv_def)
    have "lookup st (handle r) = Some ?a" using lookup_mem [OF Cons.prems(1) a] r by (simp add: rhandle_def)
    from record_remove_effect [OF Cons.prems(1) this]
    obtain st1 where st1: "sdp_record_remove (handle r) st = Ret (0, st1)" "repo_inv st1"
      "rec_heap st1 = rec_heap st" "socket_index st1 = socket_index st"
      "service_db st1 = filter (\<lambda>b. b \<noteq> ?a) (service_db st)" by metis
    have "?a \<notin> set (service_db st1)" "rec_heap st1 ?a = Some r" using st1 r by simp_all
    from free_effect [OF st1(2) this(2) this(1)]
    obtain st2 where st2: "sdp_record_free st1 ?a = Ret st2" "repo_inv st2" "service_db st2 = service_db st1"
       "socket_index st2 = socket_index st1" "rec_heap st2 = (rec_heap st1)(?a := None)" by metis
    have "idx_record ` set is \<subseteq> set (service_db st)" "?a \<notin> idx_record ` set is"
      using Cons.prems(2) by (simp_all add: idx_inv_def)
    then have sub: "idx_record ` set is \<subseteq> {b \<in> set (service_db st). b \<noteq> ?a}" by blast
    have "idx_inv is st2"
      unfolding idx_inv_def st2(3) st1(5) set_filter using Cons.prems(2) sub by (simp add: idx_inv_def)
    from Cons.IH [OF st2(2) this] 1 r st1 st2 show ?thesis
      by (auto simp: deref_def intro!: filter_cong)
  next
    case 2
    then have g: "\<forall>j \<in> set (i # is). idx_sock j > sock" using Cons.prems(2) by (auto simp: idx_inv_def)
    then have "filter (\<lambda>i. idx_sock i \<noteq> sock) (i # is) = i # is" by (intro filter_True) auto
    then show ?thesis using 2 Cons.prems(1) socket_records_greater [OF g] by simp
  next
    case 3
    have "idx_inv is st" using Cons.prems(2) by (simp add: idx_inv_def)
    from Cons.IH [OF Cons.prems(1) this] 3 show ?thesis by auto
  qed
qed simp

lemma sorted_filter_key: "sorted (map k xs) \<Longrightarrow> sorted (map k (filter P xs))"
  by (induction xs) auto

lemma distinct_map_filter_key: "distinct (map k xs) \<Longrightarrow> distinct (map k (filter P xs))"
  by (induction xs) auto

lemma idx_inv_index:
  assumes "idx_inv is st" and "service_db st' = filter (\<lambda>a. a \<notin> socket_records is sock) (service_db st)"
  shows "idx_inv (filter (\<lambda>i. idx_sock i \<noteq> sock) is) st'"
proof -
  have inj: "inj_on idx_record (set is)" using assms(1) by (simp add: idx_inv_def distinct_map)
  have "idx_record i \<notin> socket_records is sock" if "i \<in> set is" "idx_sock i \<noteq> sock" for i
    using that inj by (auto simp: socket_records_def inj_on_def)
  then show ?thesis
    using assms by (auto simp: idx_inv_def sorted_filter_key distinct_map_filter_key)
qed

lemma idx_inv_cong: "service_db st' = service_db st \<Longrightarrow> idx_inv is st' = idx_inv is st"
  by (simp add: idx_inv_def)

lemma repo_inv_socket_index [simp]: "repo_inv (st\<lparr>socket_index := l\<rparr>) = repo_inv st"
proof -
  have "rhandle (st\<lparr>socket_index := l\<rparr>) = rhandle st" by (simp add: fun_eq_iff rhandle_def)
  then show ?thesis by (simp add: repo_inv_def)
qed

text \<open>A repository with one record, registered through socket 5, and a record about to be added.\<close>

definition ex_db :: sdp_db where
  "ex_db = \<lparr>rec_heap = [0 \<mapsto> sdp_record_alloc\<lparr>handle := 0x10000\<rparr>, 1 \<mapsto> sdp_record_alloc\<lparr>handle := 0x10001\<rparr>], next_rec = 2, service_db = [0],
     access_db = [\<lparr>acc_handle = 0x10000, acc_device = BDADDR_ANY\<rparr>],
     socket_index = [\<lparr>idx_sock = 5, idx_record = 0\<rparr>]\<rparr>"

lemma ex_db_lookup: "lookup ex_db 0x10000 = Some 0" "lookup ex_db 0x10001 = None"
  by (simp_all add: lookup_def ex_db_def rhandle_def)

lemma ex_db_inv: "repo_inv ex_db" "db_inv ex_db"
  by (simp_all add: db_inv_def repo_inv_def idx_inv_def ex_db_def rhandle_def)

text \<open>
  C22: when a client's socket closes, \<open>sdp_svcdb_collect_all\<close> removes from the repository
  exactly the records that were registered through that socket, frees them, drops their
  index entries and keeps the invariant of the repository and the index; records and index
  entries of other sockets and persistent records are untouched.
\<close>

theorem collect_all_frees_socket_records:
  assumes "db_inv st"
  shows "\<exists>st'. sdp_svcdb_collect_all sock st = Ret st' \<and> db_inv st'
     \<and> service_db st' = filter (\<lambda>a. a \<notin> socket_records (socket_index st) sock) (service_db st)
     \<and> (\<forall>a. rec_heap st' a = (if a \<in> socket_records (socket_index st) sock then None else rec_heap st a))
     \<and> socket_index st' = filter (\<lambda>i. idx_sock i \<noteq> sock) (socket_index st)"
proof -
  have inv: "repo_inv st" "idx_inv (socket_index st) st" using assms by (simp_all add: db_inv_def)
  from collect_loop_effect [OF this, of sock] obtain st' where
    st': "collect_loop (socket_index st) sock st = Ret (filter (\<lambda>i. idx_sock i \<noteq> sock) (socket_index st), st')"
    "repo_inv st'" "service_db st' = filter (\<lambda>a. a \<notin> socket_records (socket_index st) sock) (service_db st)"
    "\<forall>a. rec_heap st' a = (if a \<in> socket_records (socket_index st) sock then None else rec_heap st a)"
    by blast
  from idx_inv_index [OF inv(2) st'(3)] st' show ?thesis
    by (simp add: sdp_svcdb_collect_all_def db_inv_def idx_inv_def)
qed

text \<open>Marking a record of the repository as collectable keeps the invariant.\<close>

lemma set_collectable_inv:
  assumes "db_inv st" and "a \<in> set (service_db st)" and "a \<notin> idx_record ` set (socket_index st)"
  shows "db_inv (sdp_svcdb_set_collectable a sock st)"
proof -
  have "idxc.ordered (socket_index st)" using assms(1) by (simp add: idxc.ordered_def db_inv_def idx_inv_def)
  then have "idxc.ordered (sdp_list_insert_sorted (socket_index st) \<lparr>idx_sock = sock, idx_record = a\<rparr> compare_indices)"
    by (rule idxc.ordered_insert) simp
  then show ?thesis
    using assms by (simp add: sdp_svcdb_set_collectable_def db_inv_def idx_inv_def idxc.ordered_def distinct_map_insert_sorted)
qed

lemma collect_first_filter:
  "distinct (map idx_record is) \<Longrightarrow> collect_first is a = filter (\<lambda>i. idx_record i \<noteq> a) is"
proof (induction "is")
  case (Cons i "is")
  have "filter (\<lambda>j. idx_record j \<noteq> idx_record i) is = is"
    using Cons.prems by (intro filter_True) (auto simp: image_iff)
  with Cons show ?case by auto
qed simp

lemma svcdb_collect_inv: "db_inv st \<Longrightarrow> db_inv (sdp_svcdb_collect a st)"
  by (auto simp: sdp_svcdb_collect_def db_inv_def idx_inv_def collect_first_filter
        sorted_filter_key distinct_map_filter_key)

subsection \<open>Handing out record handles\<close>

lemma next_handle_loop_found:
  assumes "lk (h + of_nat k) = Ret None" and "\<forall>j < k. \<exists>a. lk (h + of_nat j) = Ret (Some a)"
  shows "k < fuel \<Longrightarrow> next_handle_loop lk fuel h = Ret (h + of_nat k)"
  using assms
proof (induction k arbitrary: h fuel)
  case 0
  then show ?case by (cases fuel) simp_all
next
  case (Suc k)
  obtain f where f: "fuel = Suc f" "k < f" using Suc.prems(1) by (cases fuel) auto
  obtain a where a: "lk h = Ret (Some a)" using Suc.prems(3) by fastforce
  have "\<forall>j<k. \<exists>a. lk (h + 1 + of_nat j) = Ret (Some a)"
  proof (intro allI impI)
    fix j assume "j < k"
    then show "\<exists>a. lk (h + 1 + of_nat j) = Ret (Some a)"
      using Suc.prems(3) [rule_format, of "Suc j"] by (simp add: add.assoc)
  qed
  from Suc.IH [OF f(2) _ this] show ?case using Suc.prems(2) a f(1) by (simp add: add.assoc)
qed

text \<open>
  The contract between the handle generator and the repository: a lookup that always
  returns, and refines a map that has at most as many handles as there are records.
\<close>

locale handle_repo =
  fixes find_op :: "'s \<Rightarrow> u32 \<Rightarrow> 'a option run"
    and inv :: "'s \<Rightarrow> bool"
    and abs_map :: "'s \<Rightarrow> u32 \<Rightarrow> 'a option"
    and recs :: "'s \<Rightarrow> 'a list"
  assumes find_refines: "inv s \<Longrightarrow> find_op s h = Ret (abs_map s h)"
    and few: "inv s \<Longrightarrow> card (dom (abs_map s)) \<le> length (recs s)"
begin

lemma some_free:
  assumes "inv s" and "length (recs s) < 2 ^ 32"
  shows "\<exists>k \<le> length (recs s). abs_map s (h + of_nat k) = None"
proof (rule ccontr)
  let ?n = "length (recs s)"
  assume "\<not> ?thesis"
  then have "(\<lambda>k. h + of_nat k) ` {..?n} \<subseteq> dom (abs_map s)" by fastforce
  then have "card ((\<lambda>k. h + of_nat k :: u32) ` {..?n}) \<le> card (dom (abs_map s))"
    by (intro card_mono) simp_all
  moreover have "inj_on (\<lambda>k. h + of_nat k :: u32) {..?n}"
    using assms(2) by (intro inj_onI) (simp add: of_nat_eq_iff word_of_nat_eq_iff take_bit_nat_eq_self)
  ultimately show False using few [OF assms(1)] by (simp add: card_image)
qed

lemma next_free:
  assumes "inv s" and "length (recs s) < 2 ^ 32" and "length (recs s) < fuel"
  shows "\<exists>k \<le> length (recs s). next_handle_loop (find_op s) fuel h = Ret (h + of_nat k)
     \<and> abs_map s (h + of_nat k) = None \<and> (\<forall>j < k. abs_map s (h + of_nat j) \<noteq> None)"
proof -
  define k where "k = (LEAST k. abs_map s (h + of_nat k) = None)"
  obtain m where m: "m \<le> length (recs s)" "abs_map s (h + of_nat m) = None" using some_free [OF assms(1,2)] by blast
  then have k: "abs_map s (h + of_nat k) = None" "k \<le> length (recs s)"
    unfolding k_def by (auto intro: LeastI Least_le order_trans)
  have less: "\<forall>j < k. abs_map s (h + of_nat j) \<noteq> None"
    unfolding k_def by (auto dest: not_less_Least)
  have "next_handle_loop (find_op s) fuel h = Ret (h + of_nat k)"
    using k less assms(3) by (intro next_handle_loop_found) (auto simp: find_refines [OF assms(1)])
  then show ?thesis using k less by blast
qed

end

interpretation sdb: handle_repo sdp_record_find repo_inv lookup service_db
proof
  fix st h assume inv: "repo_inv st"
  show "sdp_record_find st h = Ret (lookup st h)" using inv by (rule find_eq)
  have "dom (lookup st) \<subseteq> rhandle st ` set (service_db st)"
  proof
    fix x assume "x \<in> dom (lookup st)"
    then show "x \<in> rhandle st ` set (service_db st)" using lookup_None [of st x] by (cases "lookup st x") auto
  qed
  then show "card (dom (lookup st)) \<le> length (service_db st)"
    by (meson card_image_le card_length card_mono finite_imageI finite_set order_trans)
qed

lemma next_handle_returns:
  assumes "repo_inv st" and "length (service_db st) < 2 ^ 32 - 2 ^ 16" and "length (service_db st) < fuel"
  shows "\<exists>h. sdp_next_handle fuel st = Ret h \<and> 0x10000 \<le> h \<and> sdp_record_find st h = Ret None
     \<and> (\<forall>g. 0x10000 \<le> g \<and> g < h \<longrightarrow> (\<exists>a. sdp_record_find st g = Ret (Some a)))"
proof -
  have "length (service_db st) < 2 ^ 32" using assms(2) by simp
  from sdb.next_free [OF assms(1) this assms(3), of "0x10000"]
  obtain k where k: "k \<le> length (service_db st)" "sdp_next_handle fuel st = Ret (0x10000 + of_nat k)"
      "lookup st (0x10000 + of_nat k) = None" "\<forall>j < k. lookup st (0x10000 + of_nat j) \<noteq> None"
    by (auto simp: sdp_next_handle_def)
  have le: "0x10000 + k < 2 ^ 32" using k(1) assms(2) by simp
  have u: "unat (0x10000 + of_nat k :: u32) = 0x10000 + k"
    using le by (simp add: unat_word_ariths unat_of_nat)
  have ge: "0x10000 \<le> (0x10000 + of_nat k :: u32)"
    by (simp add: word_le_nat_alt u)
  have "lookup st g \<noteq> None" if "0x10000 \<le> g" "g < 0x10000 + of_nat k" for g
  proof -
    have n: "unat g < 0x10000 + k" "0x10000 \<le> unat g"
      using that u by (simp_all add: word_less_nat_alt word_le_nat_alt)
    then have "unat g - 0x10000 < k" by linarith
    with k(4) have "lookup st (0x10000 + of_nat (unat g - 0x10000)) \<noteq> None" by blast
    moreover have "0x10000 + of_nat (unat g - 0x10000) = g"
      using n(2) by (simp add: of_nat_diff)
    ultimately show ?thesis by simp
  qed
  then show ?thesis using k(2,3) ge by (auto simp: find_eq [OF assms(1)])
qed

text \<open>
  C23: as long as the repository holds fewer than \<open>2^32 - 2^16\<close> records, the unbounded
  search of \<open>sdp_next_handle\<close> ends, after at most one step more than there are records,
  and returns the least handle from \<open>0x10000\<close> on that no record of the repository has.
\<close>

theorem next_handle_least_free:
  assumes "repo_inv st" and "length (service_db st) < 2 ^ 32 - 2 ^ 16" and "length (service_db st) < fuel"
  shows "\<exists>h. sdp_next_handle fuel st = Ret h \<and> 0x10000 \<le> h \<and> sdp_record_find st h = Ret None
     \<and> (\<forall>g. 0x10000 \<le> g \<and> g < h \<longrightarrow> (\<exists>a. sdp_record_find st g = Ret (Some a)))"
  using next_handle_returns [OF assms] .

lemma add_refines_map:
  assumes "repo_inv st" and "rec_heap st a = Some r" and "lookup st (handle r) = None" and "length device = 6"
  shows "\<exists>st'. sdp_record_add device a st = Ret st' \<and> repo_inv st'
              \<and> (\<forall>h. sdp_record_find st' h = Ret (if h = handle r then Some a else lookup st h))
              \<and> (\<forall>h d. length d = 6 \<longrightarrow> sdp_check_access st' h d =
                    (if h = handle r then access_granted device d else sdp_check_access st h d))"
proof -
  obtain st' where st': "sdp_record_add device a st = Ret st'" "repo_inv st'" "lookup st' = (lookup st)(handle r \<mapsto> a)"
    "\<And>h. access_locate st' h = (if h = handle r then Some \<lparr>acc_handle = h, acc_device = device\<rparr> else access_locate st h)"
    using record_add_effect [OF assms(1-3), of device] by metis
  have "sdp_check_access st' h d = (if h = handle r then access_granted device d else sdp_check_access st h d)"
    if "length d = 6" for h d
    using that assms(4) st'(4) [of h] check_access_Some [of st' h _ d] check_access_cong [of st' h st h]
    by (auto split: if_splits)
  then show ?thesis using st' by (auto simp: find_eq)
qed

lemma remove_refines_map:
  assumes "repo_inv st"
  shows "\<exists>st'. sdp_record_remove h st = Ret (if lookup st h = None then -1 else 0, st') \<and> repo_inv st'
              \<and> (\<forall>g. sdp_record_find st' g = Ret (if g = h then None else lookup st g))
              \<and> (\<forall>g d. g \<noteq> h \<longrightarrow> sdp_check_access st' g d = sdp_check_access st g d)"
proof (cases "lookup st h")
  case None
  then show ?thesis using assms by (auto simp: record_remove_missing find_eq)
next
  case (Some a)
  obtain st' where st': "sdp_record_remove h st = Ret (0, st')" "repo_inv st'" "lookup st' = (lookup st)(h := None)"
    "\<And>h'. access_locate st' h' = (if h' = h then None else access_locate st h')"
    using record_remove_effect [OF assms Some] by metis
  have "sdp_check_access st' g d = sdp_check_access st g d" if "g \<noteq> h" for g d
    using that st'(4) [of g] check_access_cong [of st' g st g] by simp
  then show ?thesis using st' Some by (auto simp: find_eq)
qed

text \<open>
  C21: the repository refines a finite map from record handles to records and access rights:
  adding a record whose handle is new updates the map at this handle and nowhere else,
  removing a handle deletes it and nothing else, removing an unknown handle reports failure
  and changes nothing, and each operation keeps the repository's invariant.
\<close>

theorem repository_is_a_map:
  assumes "repo_inv st"
  shows "(\<forall>a r device. rec_heap st a = Some r \<and> lookup st (handle r) = None \<and> length device = 6 \<longrightarrow>
            (\<exists>st'. sdp_record_add device a st = Ret st' \<and> repo_inv st'
              \<and> (\<forall>h. sdp_record_find st' h = Ret (if h = handle r then Some a else lookup st h))
              \<and> (\<forall>h d. length d = 6 \<longrightarrow> sdp_check_access st' h d =
                    (if h = handle r then access_granted device d else sdp_check_access st h d))))
       \<and> (\<forall>h. \<exists>st'. sdp_record_remove h st = Ret (if lookup st h = None then -1 else 0, st') \<and> repo_inv st'
              \<and> (\<forall>g. sdp_record_find st' g = Ret (if g = h then None else lookup st g))
              \<and> (\<forall>g d. g \<noteq> h \<longrightarrow> sdp_check_access st' g d = sdp_check_access st g d))"
  using add_refines_map [OF assms] remove_refines_map [OF assms] by blast

theorem repository_is_a_map_witness:
  "(\<exists>st'. sdp_record_remove 0x10000 ex_db = Ret (0, st') \<and> sdp_record_find st' 0x10000 = Ret None)
   \<and> (\<exists>st'. sdp_record_add BDADDR_ANY 1 ex_db = Ret st' \<and> sdp_record_find st' 0x10001 = Ret (Some 1)
        \<and> sdp_check_access st' 0x10001 (replicate 6 7))"
proof
  let ?r = "sdp_record_alloc\<lparr>handle := 0x10001\<rparr>"
  have "\<exists>st'. sdp_record_remove 0x10000 ex_db = Ret (if lookup ex_db 0x10000 = None then -1 else 0, st') \<and> repo_inv st'
      \<and> (\<forall>g. sdp_record_find st' g = Ret (if g = 0x10000 then None else lookup ex_db g))
      \<and> (\<forall>g d. g \<noteq> 0x10000 \<longrightarrow> sdp_check_access st' g d = sdp_check_access ex_db g d)"
    using repository_is_a_map [OF ex_db_inv(1)] by (rule conjunct2 [THEN spec])
  then show "\<exists>st'. sdp_record_remove 0x10000 ex_db = Ret (0, st') \<and> sdp_record_find st' 0x10000 = Ret None"
    by (auto simp: ex_db_lookup)
  have "rec_heap ex_db 1 = Some ?r \<and> lookup ex_db (handle ?r) = None \<and> length BDADDR_ANY = 6"
    by (simp add: ex_db_lookup) (simp add: ex_db_def BDADDR_ANY_def)
  then have "\<exists>st'. sdp_record_add BDADDR_ANY 1 ex_db = Ret st' \<and> repo_inv st'
      \<and> (\<forall>h. sdp_record_find st' h = Ret (if h = handle ?r then Some 1 else lookup ex_db h))
      \<and> (\<forall>h d. length d = 6 \<longrightarrow> sdp_check_access st' h d =
            (if h = handle ?r then access_granted BDADDR_ANY d else sdp_check_access ex_db h d))"
    by (rule conjunct1 [OF repository_is_a_map [OF ex_db_inv(1)],
          THEN spec [of _ 1], THEN spec [of _ ?r], THEN spec [of _ BDADDR_ANY], THEN mp])
  then show "\<exists>st'. sdp_record_add BDADDR_ANY 1 ex_db = Ret st' \<and> sdp_record_find st' 0x10001 = Ret (Some 1)
        \<and> sdp_check_access st' 0x10001 (replicate 6 7)"
    by (auto simp: access_granted_def)
qed

theorem next_handle_least_free_witness:
  "repo_inv ex_db \<and> (\<exists>h. sdp_next_handle 2 ex_db = Ret h \<and> 0x10000 \<le> h \<and> sdp_record_find ex_db h = Ret None)"
proof -
  have "length (service_db ex_db) < 2 ^ 32 - 2 ^ 16" "length (service_db ex_db) < 2" by (simp_all add: ex_db_def)
  from next_handle_least_free [OF ex_db_inv(1) this] ex_db_inv(1) show ?thesis by blast
qed

theorem collect_all_frees_socket_records_witness:
  "db_inv ex_db \<and> (\<exists>st'. sdp_svcdb_collect_all 5 ex_db = Ret st' \<and> service_db st' = [] \<and> socket_index st' = [])"
  using collect_all_frees_socket_records [OF ex_db_inv(2), of 5] ex_db_inv(2)
  by (auto simp: ex_db_def)
end
