(* ===== verification/SDP_Service.thy ===== *)
theory SDP_Service
  imports SDP_Attributes SDP_ServiceDB
begin

section \<open>The service records of the server\<close>

text \<open>
  \<open>utils/sdpd/service.c\<close>: the server's own records, the service class bits, the extended
  inquiry response, and the requests that register, update and remove records. The file's
  static variables and the repository are the record \<open>sdp_server\<close>; the clock
  (\<open>sdp_get_time\<close>) is an argument \<open>now\<close>. The callback for service classes belongs to the
  daemon: the state keeps whether one is set and the values it was called with.
\<close>

unbundle bit_operations_syntax

record sdp_server =
  sdb :: sdp_db
  server :: "addr option"
  service_classes :: byte
  callback_set :: bool
  notified :: "byte list"
  did_vendor :: u16
  did_product :: u16
  did_version :: u16

abbreviation PUBLIC_BROWSE_GROUP :: u16 where "PUBLIC_BROWSE_GROUP \<equiv> 0x1002"
abbreviation SDP_ATTR_BROWSE_GRP_LIST :: u16 where "SDP_ATTR_BROWSE_GRP_LIST \<equiv> 0x0005"
abbreviation SDP_SERVER_RECORD_HANDLE :: u32 where "SDP_SERVER_RECORD_HANDLE \<equiv> 0"
abbreviation (input) SDP_INVALID_RECORD_HANDLE :: nat where "SDP_INVALID_RECORD_HANDLE \<equiv> 2"
abbreviation (input) SDP_INVALID_SYNTAX :: nat where "SDP_INVALID_SYNTAX \<equiv> 3"
abbreviation SDP_RECORD_PERSIST :: byte where "SDP_RECORD_PERSIST \<equiv> 0x01"
abbreviation SDP_DEVICE_RECORD :: byte where "SDP_DEVICE_RECORD \<equiv> 0x02"

text \<open>Changing a record through its pointer.\<close>

definition rec_update :: "addr \<Rightarrow> (sdp_record \<Rightarrow> sdp_record run) \<Rightarrow> sdp_db \<Rightarrow> sdp_db run" where
  "rec_update a f st = run_bind (deref st a) (\<lambda>r. run_bind (f r) (\<lambda>r'. Ret (rec_store st a r')))"

text \<open>\<open>sdp_data_alloc\<close> followed by \<open>sdp_attr_add\<close> or \<open>sdp_attr_replace\<close>, which write to the element.\<close>

definition add_data :: "u16 \<Rightarrow> byte \<Rightarrow> sdp_val \<Rightarrow> sdp_record \<Rightarrow> sdp_record run" where
  "add_data attr t v rec =
     run_bind (sdp_data_alloc t (Some v)) (\<lambda>d.
       case d of Some e \<Rightarrow> Ret (snd (sdp_attr_add rec attr e)) | None \<Rightarrow> Fault)"

definition replace_data :: "u16 \<Rightarrow> byte \<Rightarrow> sdp_val \<Rightarrow> sdp_record \<Rightarrow> sdp_record run" where
  "replace_data attr t v rec =
     run_bind (sdp_data_alloc t (Some v)) (\<lambda>d.
       case d of Some e \<Rightarrow> Ret (sdp_attr_replace rec attr e) | None \<Rightarrow> Fault)"

subsection \<open>Database state and service classes\<close>

definition update_db_timestamp :: "u32 \<Rightarrow> sdp_server \<Rightarrow> sdp_server run" where
  "update_db_timestamp now s =
     (case server s of
        None \<Rightarrow> Fault
      | Some a \<Rightarrow>
          run_bind (rec_update a (replace_data SDP_ATTR_SVCDB_STATE SDP_UINT32 (VNum (ucast now))) (sdb s))
            (\<lambda>db. Ret (s\<lparr>sdb := db\<rparr>)))"

definition svclass_bits :: "u16 \<Rightarrow> byte" where
  "svclass_bits u =
     (if u \<in> {0x1103, 0x1128} then 0x42
      else if u \<in> {0x1104, 0x1105, 0x1106, 0x1107, 0x112f} then 0x10
      else if u \<in> {0x1108, 0x111e} then 0x20
      else if u \<in> {0x1109, 0x1110, 0x1111, 0x112d, 0x1112, 0x111f} then 0x40
      else if u \<in> {0x110a, 0x1303} then 0x08
      else if u \<in> {0x110b, 0x1304} then 0x04
      else if u \<in> {0x1115, 0x1116, 0x1117} then 0x02
      else 0)"

fun svclass_loop :: "sdp_db \<Rightarrow> addr list \<Rightarrow> byte \<Rightarrow> byte run" where
  "svclass_loop st [] v = Ret v"
| "svclass_loop st (a # as) v =
     run_bind (deref st a) (\<lambda>rec.
       svclass_loop st as (case svclass rec of UUID16 u \<Rightarrow> v OR svclass_bits u | _ \<Rightarrow> v))"

definition update_svclass_list :: "sdp_server \<Rightarrow> sdp_server run" where
  "update_svclass_list s =
     run_bind (svclass_loop (sdb s) (sdp_get_record_list (sdb s)) 0) (\<lambda>v.
       Ret (s\<lparr>service_classes := v,
              notified := (if callback_set s then notified s @ [v] else notified s)\<rparr>))"

definition get_service_classes :: "sdp_server \<Rightarrow> bdaddr \<Rightarrow> byte" where
  "get_service_classes s b = service_classes s"

definition set_service_classes_callback :: "bool \<Rightarrow> sdp_server \<Rightarrow> sdp_server" where
  "set_service_classes_callback cb s = s\<lparr>callback_set := cb\<rparr>"

definition update_both :: "u32 \<Rightarrow> sdp_server \<Rightarrow> sdp_server run" where
  "update_both now s = run_bind (update_db_timestamp now s) update_svclass_list"

subsection \<open>Extended inquiry response\<close>


text \<open>
  The loop that gathers 16-bit classes into \<open>uuid[24]\<close>. \<open>i\<close> is where the inner loop
  stopped; the second component is the type byte at \<open>ptr[1]\<close>.
\<close>

fun eir_loop :: "sdp_db \<Rightarrow> addr list \<Rightarrow> u16 list \<Rightarrow> (u16 list \<times> byte) run" where
  "eir_loop st [] us = Ret (us, 0x03)"
| "eir_loop st (a # as) us =
     run_bind (deref st a) (\<lambda>rec.
       case svclass rec of
         UUID16 u \<Rightarrow>
           if u < 0x1100 then eir_loop st as us
           else if 23 < length us then Ret (us, 0x02)
           else let i = length (takeWhile (\<lambda>x. x \<noteq> u) us)
                in if int i = int (length us) - 1 then eir_loop st as us
                   else eir_loop st as (us @ [u])
       | _ \<Rightarrow> eir_loop st as us)"





subsection \<open>The server's own records\<close>

definition browse_attrs :: "sdp_record \<Rightarrow> sdp_record run" where
  "browse_attrs r =
     run_bind (add_data SDP_ATTR_RECORD_HANDLE SDP_UINT32 (VNum (ucast (handle r))) r) (\<lambda>r1.
     run_bind (sdp_set_uuidseq_attr r1 SDP_ATTR_SVCLASS_ID_LIST [Some (sdp_uuid16_create 0x1001)]) (\<lambda>(_, r2).
     run_bind (sdp_attr_add_new r2 SDP_ATTR_GROUP_ID SDP_UUID16 (Some (VNum (ucast PUBLIC_BROWSE_GROUP)))) (\<lambda>(_, r3).
       Ret r3)))"

definition register_public_browse_group :: "sdp_server \<Rightarrow> sdp_server run" where
  "register_public_browse_group s =
     (let (browse, db1) = rec_new (sdb s) (sdp_record_alloc\<lparr>handle := SDP_SERVER_RECORD_HANDLE + 1\<rparr>)
      in run_bind (sdp_record_add BDADDR_ANY browse db1) (\<lambda>db2.
         run_bind (rec_update browse browse_attrs db2) (\<lambda>db3. Ret (s\<lparr>sdb := db3\<rparr>))))"

definition server_attrs :: "sdp_record \<Rightarrow> sdp_record run" where
  "server_attrs r =
     run_bind (add_data SDP_ATTR_RECORD_HANDLE SDP_UINT32 (VNum (ucast (handle r))) r) (\<lambda>r1.
     run_bind (sdp_set_uuidseq_attr r1 SDP_ATTR_SVCLASS_ID_LIST [Some (sdp_uuid16_create 0x1000)]) (\<lambda>(_, r2).
     run_bind (sdp_seq_alloc [(SDP_UINT16, Some (VNum 0x0100))]) (\<lambda>v.
       case v of Some d \<Rightarrow> Ret (snd (sdp_attr_add r2 SDP_ATTR_VERSION_NUM_LIST d)) | None \<Rightarrow> Fault)))"

definition register_server_service :: "u32 \<Rightarrow> sdp_server \<Rightarrow> sdp_server run" where
  "register_server_service now s =
     (let (a, db1) = rec_new (sdb s) (sdp_record_alloc\<lparr>pattern := [], handle := SDP_SERVER_RECORD_HANDLE\<rparr>)
      in run_bind (sdp_record_add BDADDR_ANY a db1) (\<lambda>db2.
         run_bind (rec_update a server_attrs db2) (\<lambda>db3.
           update_both now (s\<lparr>sdb := db3, server := Some a\<rparr>))))"

definition device_id_attrs :: "u16 \<Rightarrow> u16 \<Rightarrow> u16 \<Rightarrow> sdp_record \<Rightarrow> sdp_record run" where
  "device_id_attrs vendor product vers r =
     run_bind (add_data SDP_ATTR_RECORD_HANDLE SDP_UINT32 (VNum (ucast (handle r))) r) (\<lambda>r1.
     run_bind (sdp_set_uuidseq_attr r1 SDP_ATTR_SVCLASS_ID_LIST [Some (sdp_uuid16_create 0x1200)]) (\<lambda>(_, r2).
     run_bind (sdp_set_uuidseq_attr r2 SDP_ATTR_BROWSE_GRP_LIST [Some (sdp_uuid16_create PUBLIC_BROWSE_GROUP)]) (\<lambda>(_, r3).
     run_bind (sdp_set_profile_descs r3
                 [Some \<lparr>prof_uuid = sdp_uuid16_create 0x1200, version = 0x0102\<rparr>]) (\<lambda>(_, r4).
     run_bind (add_data 0x0200 SDP_UINT16 (VNum 0x0102) r4) (\<lambda>r5.
     run_bind (add_data 0x0201 SDP_UINT16 (VNum (ucast vendor)) r5) (\<lambda>r6.
     run_bind (add_data 0x0202 SDP_UINT16 (VNum (ucast product)) r6) (\<lambda>r7.
     run_bind (add_data 0x0203 SDP_UINT16 (VNum (ucast vers)) r7) (\<lambda>r8.
     run_bind (add_data 0x0204 SDP_BOOL (VNum 1) r8) (\<lambda>r9.
       add_data 0x0205 SDP_UINT16 (VNum 0x0002) r9)))))))))"

definition register_device_id :: "nat \<Rightarrow> u32 \<Rightarrow> u16 \<Rightarrow> u16 \<Rightarrow> u16 \<Rightarrow> sdp_server \<Rightarrow> sdp_server run" where
  "register_device_id fuel now vendor product vers s =
     run_bind (sdp_next_handle fuel (sdb s)) (\<lambda>h.
     let s1 = s\<lparr>did_vendor := vendor, did_product := product, did_version := vers\<rparr>;
         (a, db1) = rec_new (sdb s1) (sdp_record_alloc\<lparr>handle := h\<rparr>)
     in run_bind (sdp_record_add BDADDR_ANY a db1) (\<lambda>db2.
        run_bind (rec_update a (device_id_attrs vendor product vers) db2) (\<lambda>db3.
          update_both now (s1\<lparr>sdb := db3\<rparr>))))"

subsection \<open>Records added by the daemon\<close>

text \<open>
  Both registration paths end with these attributes: the record's handle, and membership
  in the root browse group when the record does not name its groups.
\<close>

definition public_attrs :: "sdp_record \<Rightarrow> sdp_record run" where
  "public_attrs r =
     run_bind (replace_data SDP_ATTR_RECORD_HANDLE SDP_UINT32 (VNum (ucast (handle r))) r) (\<lambda>r1.
       Ret (if sdp_data_get r1 SDP_ATTR_BROWSE_GRP_LIST = None
            then sdp_pattern_add_uuid r1 (sdp_uuid16_create PUBLIC_BROWSE_GROUP) else r1))"

definition add_record_to_server :: "nat \<Rightarrow> u32 \<Rightarrow> bdaddr \<Rightarrow> addr \<Rightarrow> sdp_server \<Rightarrow> (int \<times> sdp_server) run" where
  "add_record_to_server fuel now src a s =
     (let finish = (\<lambda>db1.
        run_bind (sdp_record_add src a db1) (\<lambda>db2.
        run_bind (rec_update a public_attrs db2) (\<lambda>db3.
        run_bind (update_both now (s\<lparr>sdb := db3\<rparr>)) (\<lambda>s1. Ret (0, s1)))))
      in run_bind (deref (sdb s) a) (\<lambda>rec.
         if handle rec = 0xffffffff
         then run_bind (sdp_next_handle fuel (sdb s)) (\<lambda>h.
              let db1 = rec_store (sdb s) a (rec\<lparr>handle := h\<rparr>)
              in if h < 0x10000 then Ret (-1, s\<lparr>sdb := db1\<rparr>) else finish db1)
         else run_bind (sdp_record_find (sdb s) (handle rec)) (\<lambda>f.
              if f \<noteq> None then Ret (-1, s) else finish (sdb s))))"

definition remove_record_from_server :: "u32 \<Rightarrow> u32 \<Rightarrow> sdp_server \<Rightarrow> (int \<times> sdp_server) run" where
  "remove_record_from_server now h s =
     run_bind (sdp_record_find (sdb s) h) (\<lambda>f.
       case f of
         None \<Rightarrow> Ret (-2, s)
       | Some a \<Rightarrow>
           run_bind (sdp_record_remove h (sdb s)) (\<lambda>(r, db1).
           run_bind (if r = 0 then update_both now (s\<lparr>sdb := db1\<rparr>) else Ret (s\<lparr>sdb := db1\<rparr>)) (\<lambda>s1.
           run_bind (sdp_record_free (sdb s1) a) (\<lambda>db2. Ret (0, s1\<lparr>sdb := db2\<rparr>)))))"

subsection \<open>Requests that change the repository\<close>

record sdp_req =
  req_device :: bdaddr
  req_bdaddr :: bdaddr
  req_local :: bool
  req_sock :: int
  req_mtu :: int
  req_flags :: byte
  req_buf :: "byte list"
  req_len :: int

abbreviation (input) pdu_hdr_size :: nat where "pdu_hdr_size \<equiv> 5"

text \<open>
  \<open>extract_pdu_server\<close> parses the attributes of a registration into the record that has the
  handle at the front of the attribute list, or the expected handle, or into a new record.
\<close>

fun server_extract_loop ::
    "nat \<Rightarrow> byte list \<Rightarrow> int \<Rightarrow> int \<Rightarrow> int \<Rightarrow> bool \<Rightarrow> sdp_record \<Rightarrow> (bool \<times> sdp_record) run" where
  "server_extract_loop 0 p bufsize seqlen extracted ok rec = NoFuel"
| "server_extract_loop (Suc k) p bufsize seqlen extracted ok rec =
     (if extracted < seqlen
      then if short_of bufsize 3 then Ret (ok, rec)
           else run_bind (rd 1 p) (\<lambda>_.
                run_bind (rd 2 (drop 1 p)) (\<lambda>a.
                run_bind (sdp_extract_attr_safe k (drop 3 p) (bufsize - 3) 0 (Some rec)) (\<lambda>(pAttr, len, rec').
                  case pAttr of
                    None \<Rightarrow> Ret (ok, the rec')
                  | Some d \<Rightarrow>
                      server_extract_loop k (drop (nat (3 + len)) p) (bufsize - (3 + len)) seqlen
                        (extracted + (3 + len)) True (sdp_attr_replace (the rec') (of_nat (get_be a)) d))))
      else Ret (ok, rec))"

definition server_record ::
    "bdaddr \<Rightarrow> u32 option \<Rightarrow> u32 \<Rightarrow> sdp_db \<Rightarrow> (addr \<times> sdp_db) run" where
  "server_record device given expected st =
     (let key = (case given of Some h \<Rightarrow> Some h | None \<Rightarrow> if expected \<noteq> 0xffffffff then Some expected else None)
      in run_bind (case key of Some h \<Rightarrow> sdp_record_find st h | None \<Rightarrow> Ret None) (\<lambda>f.
           case f of
             Some a \<Rightarrow> run_bind (deref st a) (\<lambda>r. Ret (a, rec_store st a (r\<lparr>attrlist := []\<rparr>)))
           | None \<Rightarrow>
               (case key of
                  Some h \<Rightarrow> (let (a, st1) = rec_new st (sdp_record_alloc\<lparr>handle := h\<rparr>)
                             in run_bind (sdp_record_add device a st1) (\<lambda>st2. Ret (a, st2)))
                | None \<Rightarrow> Ret (rec_new st sdp_record_alloc))))"

definition extract_pdu_server ::
    "nat \<Rightarrow> bdaddr \<Rightarrow> byte list \<Rightarrow> int \<Rightarrow> u32 \<Rightarrow> sdp_db \<Rightarrow> (addr option \<times> int \<times> sdp_db) run" where
  "extract_pdu_server fuel device buf bufsize0 handleExpected st =
     run_bind (sdp_extract_seqtype_safe buf bufsize0 0 0) (\<lambda>(scanned, t, seqlen).
     let p = drop (nat scanned) buf; bufsize = bufsize0 - scanned
     in if short_of bufsize 2 then Ret (None, scanned, st)
        else run_bind (rd 2 (drop 1 p)) (\<lambda>l.
          let lookAhead = (of_nat (get_be l) :: u16)
          in if lookAhead = SDP_ATTR_RECORD_HANDLE \<and> short_of bufsize 8 then Ret (None, scanned, st)
             else run_bind (if lookAhead = SDP_ATTR_RECORD_HANDLE
                            then run_bind (rd 4 (drop 4 p)) (\<lambda>h. Ret (Some (of_nat (get_be h))))
                            else Ret None) (\<lambda>given.
                  run_bind (server_record device given handleExpected st) (\<lambda>(a, st1).
                  run_bind (deref st1 a) (\<lambda>r.
                  run_bind (server_extract_loop fuel p bufsize seqlen 0 False r) (\<lambda>(ok, r').
                    Ret (Some a, if ok then scanned + seqlen else scanned, rec_store st1 a r')))))))"

definition rsp_put :: "sdp_buf \<Rightarrow> nat \<Rightarrow> nat \<Rightarrow> sdp_buf run" where
  "rsp_put rsp n v = run_bind (buf_put rsp 0 (put_be n v)) (\<lambda>b. Ret (b\<lparr>data_size := n\<rparr>))"

definition register_invalid ::
    "sdp_req \<Rightarrow> sdp_buf \<Rightarrow> sdp_server \<Rightarrow> (int \<times> sdp_req \<times> sdp_buf \<times> sdp_server) run" where
  "register_invalid req rsp s = run_bind (rsp_put rsp 2 SDP_INVALID_SYNTAX) (\<lambda>b. Ret (-1, req, b, s))"

definition register_success ::
    "u32 \<Rightarrow> addr \<Rightarrow> sdp_req \<Rightarrow> sdp_buf \<Rightarrow> sdp_server \<Rightarrow> (int \<times> sdp_req \<times> sdp_buf \<times> sdp_server) run" where
  "register_success now a req rsp s =
     run_bind (update_both now s) (\<lambda>s1.
     run_bind (deref (sdb s1) a) (\<lambda>rec.
     run_bind (rsp_put rsp 4 (unat (handle rec))) (\<lambda>b. Ret (0, req, b, s1))))"

text \<open>The part between the check of the handle and the label \<open>success\<close>.\<close>

definition register_new ::
    "u32 \<Rightarrow> addr \<Rightarrow> sdp_req \<Rightarrow> sdp_buf \<Rightarrow> sdp_server \<Rightarrow> (int \<times> sdp_req \<times> sdp_buf \<times> sdp_server) run" where
  "register_new now a req rsp s =
     run_bind (sdp_record_add (req_device req) a (sdb s)) (\<lambda>db1.
     let db2 = (if req_flags req AND SDP_RECORD_PERSIST = 0
                then sdp_svcdb_set_collectable a (req_sock req) db1 else db1)
     in run_bind (rec_update a public_attrs db2) (\<lambda>db3. register_success now a req rsp (s\<lparr>sdb := db3\<rparr>)))"

definition service_register_req ::
    "nat \<Rightarrow> u32 \<Rightarrow> sdp_req \<Rightarrow> sdp_buf \<Rightarrow> sdp_server \<Rightarrow> (int \<times> sdp_req \<times> sdp_buf \<times> sdp_server) run" where
  "service_register_req fuel now req0 rsp s =
     run_bind (rd 1 (drop pdu_hdr_size (req_buf req0))) (\<lambda>fl.
     let p = drop (pdu_hdr_size + 1) (req_buf req0); bufsize = req_len req0 - int pdu_hdr_size;
         req1 = req0\<lparr>req_flags := hd fl\<rparr>; dev = (hd fl AND SDP_DEVICE_RECORD \<noteq> 0)
     in run_bind (if dev then run_bind (rd 6 p) (\<lambda>d. Ret (req1\<lparr>req_device := d\<rparr>)) else Ret req1) (\<lambda>req.
        run_bind (extract_pdu_server fuel (req_device req) (if dev then drop 6 p else p)
                    (if dev then bufsize - 6 else bufsize) 0xffffffff (sdb s)) (\<lambda>(ra, scanned, db1).
        let s1 = s\<lparr>sdb := db1\<rparr>
        in case ra of
             None \<Rightarrow> register_invalid req rsp s1
           | Some a \<Rightarrow>
               run_bind (deref db1 a) (\<lambda>rec.
                 if handle rec = 0xffffffff
                 then run_bind (sdp_next_handle fuel db1) (\<lambda>h.
                        let db2 = rec_store db1 a (rec\<lparr>handle := h\<rparr>)
                        in if h < 0x10000
                           then run_bind (sdp_record_free db2 a) (\<lambda>db3. register_invalid req rsp (s\<lparr>sdb := db3\<rparr>))
                           else register_new now a req rsp (s\<lparr>sdb := db2\<rparr>))
                 else run_bind (sdp_record_find db1 (handle rec)) (\<lambda>f.
                        if f \<noteq> None then register_success now a req rsp s1
                        else register_new now a req rsp s1)))))"

definition service_update_req ::
    "nat \<Rightarrow> u32 \<Rightarrow> sdp_req \<Rightarrow> sdp_buf \<Rightarrow> sdp_server \<Rightarrow> (int \<times> sdp_buf \<times> sdp_server) run" where
  "service_update_req fuel now req rsp s =
     run_bind (rd 4 (drop pdu_hdr_size (req_buf req))) (\<lambda>v.
     let h = (of_nat (get_be v) :: u32);
         p = drop (pdu_hdr_size + 4) (req_buf req); bufsize = req_len req - int pdu_hdr_size - 4;
         finish = (\<lambda>status s1. run_bind (rsp_put rsp 2 status) (\<lambda>b. Ret (int status, b, s1)))
     in run_bind (sdp_record_find (sdb s) h) (\<lambda>orec.
          case orec of
            None \<Rightarrow> finish SDP_INVALID_RECORD_HANDLE s
          | Some _ \<Rightarrow>
              run_bind (extract_pdu_server fuel BDADDR_ANY p bufsize h (sdb s)) (\<lambda>(nrec, scanned, db1).
                case nrec of
                  None \<Rightarrow> Fault
                | Some a \<Rightarrow>
                    run_bind (deref db1 a) (\<lambda>r.
                      if h = handle r
                      then run_bind (update_both now (s\<lparr>sdb := db1\<rparr>)) (finish 0)
                      else run_bind (sdp_record_free db1 a) (\<lambda>db2. finish SDP_INVALID_SYNTAX (s\<lparr>sdb := db2\<rparr>))))))"

definition service_remove_req ::
    "u32 \<Rightarrow> sdp_req \<Rightarrow> sdp_buf \<Rightarrow> sdp_server \<Rightarrow> (int \<times> sdp_buf \<times> sdp_server) run" where
  "service_remove_req now req rsp s =
     run_bind (rd 4 (drop pdu_hdr_size (req_buf req))) (\<lambda>v.
     let h = (of_nat (get_be v) :: u32);
         finish = (\<lambda>status s1. run_bind (rsp_put rsp 2 (nat (status mod 65536))) (\<lambda>b. Ret (status, b, s1)))
     in run_bind (sdp_record_find (sdb s) h) (\<lambda>f.
          case f of
            None \<Rightarrow> finish (int SDP_INVALID_RECORD_HANDLE) s
          | Some a \<Rightarrow>
              run_bind (sdp_record_remove h (sdp_svcdb_collect a (sdb s))) (\<lambda>(status, db1).
              run_bind (sdp_record_free db1 a) (\<lambda>db2.
                if status = 0
                then run_bind (update_both now (s\<lparr>sdb := db2\<rparr>)) (finish 0)
                else finish status (s\<lparr>sdb := db2\<rparr>)))))"

subsection \<open>Changes that keep the repository\<close>

text \<open>
  Storing into a record without changing its handle keeps the repository as a map: the
  lists are the same and every address has the same handle.
\<close>

definition same_repo :: "sdp_db \<Rightarrow> sdp_db \<Rightarrow> bool" where
  "same_repo st st' \<longleftrightarrow> service_db st' = service_db st \<and> access_db st' = access_db st
     \<and> socket_index st' = socket_index st \<and> next_rec st' = next_rec st
     \<and> (\<forall>a. map_option handle (rec_heap st' a) = map_option handle (rec_heap st a))"

lemma same_repo_refl [simp]: "same_repo st st"
  by (simp add: same_repo_def)

lemma same_repo_trans: "same_repo st st' \<Longrightarrow> same_repo st' st'' \<Longrightarrow> same_repo st st''"
  by (simp add: same_repo_def)

lemma same_repo_rhandle:
  assumes "same_repo st st'"
  shows "rhandle st' = rhandle st"
proof
  fix a
  have "map_option handle (rec_heap st' a) = map_option handle (rec_heap st a)"
    using assms by (simp add: same_repo_def)
  then show "rhandle st' a = rhandle st a"
    by (cases "rec_heap st a"; cases "rec_heap st' a") (auto simp: rhandle_def)
qed

lemma same_repo_live: "same_repo st st' \<Longrightarrow> (rec_heap st' a = None) = (rec_heap st a = None)"
  by (metis (no_types) map_option_is_None same_repo_def)

lemma same_repo_lookup: "same_repo st st' \<Longrightarrow> lookup st' = lookup st"
  by (simp add: fun_eq_iff lookup_def same_repo_rhandle) (simp add: same_repo_def)

lemma same_repo_access: "same_repo st st' \<Longrightarrow> access_locate st' = access_locate st"
  by (simp add: fun_eq_iff access_locate_def same_repo_def)

lemma same_repo_inv:
  assumes "same_repo st st'"
  shows "repo_inv st' = repo_inv st"
proof -
  have "service_db st' = service_db st" "access_db st' = access_db st" "next_rec st' = next_rec st"
    using assms by (simp_all add: same_repo_def)
  then show ?thesis
    by (simp add: repo_inv_def same_repo_rhandle [OF assms] same_repo_live [OF assms] del: not_None_eq)
qed

lemma same_repo_db_inv: "same_repo st st' \<Longrightarrow> db_inv st' = db_inv st"
  by (simp add: db_inv_def same_repo_inv idx_inv_def) (simp add: same_repo_def)

lemmas same_repo_facts = same_repo_rhandle same_repo_lookup same_repo_access same_repo_inv same_repo_db_inv

lemma rec_store_same:
  "rec_heap st a = Some r \<Longrightarrow> handle r' = handle r \<Longrightarrow> same_repo st (rec_store st a r')"
  by (simp add: same_repo_def rec_store_def)

lemma rec_update_same:
  assumes "rec_heap st a = Some r" and "f r = Ret r'" and "handle r' = handle r"
  shows "rec_update a f st = Ret (rec_store st a r') \<and> same_repo st (rec_store st a r')"
  using assms by (simp add: rec_update_def deref_def rec_store_same)

text \<open>Allocation takes a fresh address and touches nothing else.\<close>

lemma rec_new_effect:
  assumes "repo_inv st"
  obtains a st' where "rec_new st r = (a, st')" "rec_heap st' a = Some r" "rec_heap st a = None"
    "a \<notin> set (service_db st)" "repo_inv st'" "lookup st' = lookup st" "service_db st' = service_db st"
    "access_db st' = access_db st" "socket_index st' = socket_index st"
    "\<And>b. b \<noteq> a \<Longrightarrow> rec_heap st' b = rec_heap st b"
proof -
  let ?a = "next_rec st"
  define st' where "st' = st\<lparr>rec_heap := (rec_heap st)(?a \<mapsto> r), next_rec := Suc ?a\<rparr>"
  have dead: "rec_heap st ?a = None" using assms by (simp add: repo_inv_def)
  then have fresh: "?a \<notin> set (service_db st)" using assms by (auto simp: repo_inv_def)
  have flds: "service_db st' = service_db st" "access_db st' = access_db st" "socket_index st' = socket_index st"
      "next_rec st' = Suc ?a" "rec_heap st' = (rec_heap st)(?a \<mapsto> r)"
    by (simp_all add: st'_def)
  have rh: "rhandle st' b = rhandle st b" if "b \<in> set (service_db st)" for b
    using that fresh by (auto simp: rhandle_def flds)
  have m: "map (rhandle st') (service_db st) = map (rhandle st) (service_db st)" using rh by simp
  have inv: "repo_inv st'"
    using assms fresh by (simp add: repo_inv_def flds m)
  have "find (\<lambda>b. rhandle st' b = h) (service_db st) = find (\<lambda>b. rhandle st b = h) (service_db st)" for h
    using rh by (intro find_cong) auto
  then have lk: "lookup st' = lookup st" by (simp add: fun_eq_iff lookup_def flds)
  show thesis
    by (rule that [OF _ _ dead fresh inv lk]) (simp_all add: flds rec_new_def st'_def)
qed

subsection \<open>The invariant of the server\<close>

text \<open>The repository is consistent, and the server's own record is in it under handle 0.\<close>

definition srv_inv :: "sdp_server \<Rightarrow> bool" where
  "srv_inv s \<longleftrightarrow> db_inv (sdb s) \<and>
     (\<exists>a. server s = Some a \<and> lookup (sdb s) SDP_SERVER_RECORD_HANDLE = Some a)"

lemma handle_attr_ops [simp]:
  "handle (sdp_attr_replace r a d) = handle r" "handle (sdp_pattern_add_uuid r u) = handle r"
  "handle (snd (sdp_attr_add r a d)) = handle r"
  by (simp_all add: sdp_attr_replace_def sdp_pattern_add_uuid_def sdp_attr_add_def Let_def split: option.split)

lemma alloc_uint32: "sdp_data_alloc SDP_UINT32 (Some (VNum w)) = Ret (Some (Data SDP_UINT32 0 (VNum (take_bit 32 w)) 5))"
  by (simp add: sdp_data_alloc_def sdp_data_alloc_with_length_def num_arg_def)

lemma take_bit_ucast32: "take_bit 32 (ucast (h :: u32) :: u64) = ucast h"
  by (rule bit_eqI) (auto simp: bit_take_bit_iff bit_ucast_iff dest: bit_imp_le_length)

lemma replace_uint32:
  "replace_data attr SDP_UINT32 (VNum (ucast (h :: u32))) r
     = Ret (sdp_attr_replace r attr (Data SDP_UINT32 0 (VNum (ucast h)) 5))"
  by (simp add: replace_data_def alloc_uint32 take_bit_ucast32)

text \<open>The union of the class bits of the records.\<close>

definition class_bit :: "sdp_db \<Rightarrow> addr list \<Rightarrow> nat \<Rightarrow> bool" where
  "class_bit st as n \<longleftrightarrow>
     (\<exists>a \<in> set as. \<exists>u. svclass (the (rec_heap st a)) = UUID16 u \<and> bit (svclass_bits u) n)"

lemma svclass_loop_bits:
  "\<forall>a \<in> set as. rec_heap st a \<noteq> None \<Longrightarrow>
   \<exists>v'. svclass_loop st as v = Ret v' \<and> (\<forall>n. bit v' n \<longleftrightarrow> bit v n \<or> class_bit st as n)"
proof (induction as arbitrary: v)
  case (Cons a as)
  obtain r where r: "rec_heap st a = Some r" using Cons.prems by auto
  let ?v = "case svclass r of UUID16 u \<Rightarrow> v OR svclass_bits u | _ \<Rightarrow> v"
  have "class_bit st (a # as) n \<longleftrightarrow> (\<exists>u. svclass r = UUID16 u \<and> bit (svclass_bits u) n) \<or> class_bit st as n" for n
    using r by (auto simp: class_bit_def)
  moreover have "bit ?v n \<longleftrightarrow> bit v n \<or> (\<exists>u. svclass r = UUID16 u \<and> bit (svclass_bits u) n)" for n
    by (cases "svclass r") (auto simp: bit_or_iff)
  moreover obtain v' where "svclass_loop st as ?v = Ret v'" "\<forall>n. bit v' n \<longleftrightarrow> bit ?v n \<or> class_bit st as n"
    using Cons by fastforce
  ultimately show ?case using r by (auto simp: deref_def)
qed (simp add: class_bit_def)

lemma update_both_effect:
  assumes "repo_inv (sdb s)" and "server s = Some a" and "rec_heap (sdb s) a = Some r"
  obtains s' where "update_both now s = Ret s'" "same_repo (sdb s) (sdb s')" "server s' = server s"
    "rec_heap (sdb s') = (rec_heap (sdb s))(a \<mapsto> sdp_attr_replace r SDP_ATTR_SVCDB_STATE (Data SDP_UINT32 0 (VNum (ucast now)) 5))"
    "\<And>n. bit (service_classes s') n \<longleftrightarrow> class_bit (sdb s') (service_db (sdb s')) n"
    "did_vendor s' = did_vendor s" "did_product s' = did_product s" "did_version s' = did_version s"
    "notified s' = (if callback_set s then notified s @ [service_classes s'] else notified s)"
proof -
  let ?r = "sdp_attr_replace r SDP_ATTR_SVCDB_STATE (Data SDP_UINT32 0 (VNum (ucast now)) 5)"
  define db where "db = rec_store (sdb s) a ?r"
  have up: "rec_update a (replace_data SDP_ATTR_SVCDB_STATE SDP_UINT32 (VNum (ucast now))) (sdb s) = Ret db" and same: "same_repo (sdb s) db"
    using rec_update_same [OF assms(3), of "replace_data SDP_ATTR_SVCDB_STATE SDP_UINT32 (VNum (ucast now))" ?r]
    by (simp_all add: replace_uint32 db_def)
  have inv: "repo_inv db" using same_repo_inv [OF same] assms(1) by simp
  then have "\<forall>b \<in> set (service_db db). rec_heap db b \<noteq> None" by (simp add: repo_inv_def)
  from svclass_loop_bits [OF this, of 0] obtain v where
    v: "svclass_loop db (service_db db) 0 = Ret v" "\<And>n. bit v n \<longleftrightarrow> class_bit db (service_db db) n" by auto
  have "update_both now s = Ret (s\<lparr>sdb := db, service_classes := v,
      notified := if callback_set s then notified s @ [v] else notified s\<rparr>)"
    using assms(2) up v(1) by (simp add: update_both_def update_db_timestamp_def update_svclass_list_def sdp_get_record_list_def)
  then show thesis
    by (rule that) (use same v(2) in \<open>simp_all add: db_def rec_store_def\<close>)
qed

subsection \<open>Parsing a registration\<close>

lemma attrid_image: "of_nat (get_be (put_be 2 (unat (attrId d)))) = attrId d"
proof -
  have "unat (attrId d) < 256 ^ 2" using unsigned_less [of "attrId d"] by simp
  then show ?thesis by (simp only: get_be_put_be_id) simp
qed

lemma handle_pattern_seq [simp]: "handle (sdp_pattern_add_uuidseq r us) = handle r"
  by (induction us arbitrary: r) simp_all

lemma server_loop_enc:
  assumes "\<forall>d \<in> set ds. rt_ok d" and "1 + 2 * length (concat (map attr_enc ds)) \<le> k"
    and "int (length (concat (map attr_enc ds))) \<le> b"
  shows "\<exists>r'. server_extract_loop k (concat (map attr_enc ds) @ rest) b (n + int (length (concat (map attr_enc ds)))) n ok r
      = Ret (ok \<or> ds \<noteq> [], r') \<and> attrlist r' = attrlist (recs.puts (rx_attrs ds) r)
      \<and> pattern r' = pattern (sdp_pattern_add_uuidseq r (concat (map uuids_of ds))) \<and> handle r' = handle r"
  using assms
proof (induction ds arbitrary: k b n r ok)
  case Nil
  then show ?case by (cases k) (simp_all add: rx_attrs_def)
next
  case (Cons d ds)
  let ?L = "length (concat (map attr_enc ds))" and ?n = "length (sdp_enc d)"
  let ?r1 = "sdp_pattern_add_uuidseq r (uuids_of d)"
  let ?r2 = "sdp_attr_replace ?r1 (attrId d) (rx d)"
  let ?tl = "concat (map attr_enc ds) @ rest"
  obtain k' where k: "k = Suc k'" "2 * ?n \<le> k'" "1 + 2 * ?L \<le> k'"
    using Cons.prems(2) by (cases k) (auto simp: length_attr_enc)
  have b: "3 + int ?n + int ?L \<le> b" using Cons.prems(3) by (simp add: length_attr_enc)
  have e: "sdp_extract_attr_safe k' (sdp_enc d @ ?tl) (b - 3) 0 (Some r) = Ret (Some (rx d), int ?n, Some ?r1)"
    using extract_enc(1) [of d k' "b - 3" ?tl 0 "Some r"] Cons.prems(1) k b by (simp add: add_uuids_def)
  obtain r' where IH: "server_extract_loop k' ?tl (b - (3 + int ?n)) (n + (3 + int ?n) + int ?L) (n + (3 + int ?n)) True ?r2 = Ret (True, r')"
      "attrlist r' = attrlist (recs.puts (rx_attrs ds) ?r2)"
      "pattern r' = pattern (sdp_pattern_add_uuidseq ?r2 (concat (map uuids_of ds)))" "handle r' = handle ?r2"
    using Cons.IH [of k' "b - (3 + int ?n)" "n + (3 + int ?n)" True ?r2] Cons.prems(1) k b by auto
  have "attrlist ?r2 = attrlist (sdp_attr_replace r (attrId d) (rx d))"
    by (rule attr_replace_attrlist_cong) simp
  then have 1: "attrlist r' = attrlist (recs.puts (rx_attrs (d # ds)) r)"
    unfolding IH(2) by (simp add: rx_attrs_def) (rule puts_attrlist_cong)
  have p2: "pattern ?r2 = pattern ?r1"
    by (simp add: sdp_attr_replace_def Let_def split: option.split)
  have 2: "pattern r' = pattern (sdp_pattern_add_uuidseq r (concat (map uuids_of (d # ds))))"
    unfolding IH(3) using pattern_add_cong [OF p2] by (simp add: pattern_add_uuidseq_append)
  have dr: "drop (3 + ?n) (SDP_UINT16 # put_be 2 (unat (attrId d)) @ sdp_enc d @ ?tl) = ?tl"
    by (simp add: numeral_3_eq_3)
  have "server_extract_loop k (concat (map attr_enc (d # ds)) @ rest) b (n + int (length (concat (map attr_enc (d # ds))))) n ok r = Ret (True, r')"
    using b e attrid_image [of d] IH(1) dr
    by (simp add: k(1) attr_enc_def [of d] length_attr_enc short_of_def rd_append nat_add_distrib add.assoc)
  with 1 2 IH(4) show ?case by simp
qed

lemma seqtype_image_rest:
  assumes "body \<noteq> []" and "length body < 65536" and "int (length (seq_image body)) \<le> bufsize"
  obtains h t where "seq_image body = h @ body" "1 \<le> length h"
    "sdp_extract_seqtype_safe (seq_image body @ rest) bufsize 0 0 = Ret (int (length h), t, int (length body))"
proof (cases "length body + 2 \<le> 255")
  case True
  then show thesis
    using that [of "SDP_SEQ8 # put_be 1 (length body)"] assms seqtype_enc [of SDP_SEQ8 "length body" bufsize "body @ rest" 0 0]
    by (simp add: seq_image_def is_seq_alt_def len_width_def)
next
  case False
  then show thesis
    using that [of "SDP_SEQ16 # put_be 2 (length body)"] assms seqtype_enc [of SDP_SEQ16 "length body" bufsize "body @ rest" 0 0]
    by (simp add: seq_image_def is_seq_alt_def len_width_def)
qed

text \<open>Two steps of bookkeeping: the record under construction is not linked yet.\<close>

definition detached :: "addr \<Rightarrow> sdp_db \<Rightarrow> sdp_db \<Rightarrow> bool" where
  "detached a st st' \<longleftrightarrow> a \<notin> set (service_db st) \<and> repo_inv st' \<and> lookup st' = lookup st
     \<and> service_db st' = service_db st \<and> access_db st' = access_db st \<and> socket_index st' = socket_index st
     \<and> (\<forall>b. b \<noteq> a \<longrightarrow> rec_heap st' b = rec_heap st b)"

lemma detached_store:
  assumes "detached a st st'" and "rec_heap st' a \<noteq> None"
  shows "detached a st (rec_store st' a r)"
proof -
  define st2 where "st2 = rec_store st' a r"
  have flds: "service_db st2 = service_db st'" "access_db st2 = access_db st'" "socket_index st2 = socket_index st'"
      "next_rec st2 = next_rec st'" "rec_heap st2 = (rec_heap st')(a \<mapsto> r)"
    by (simp_all add: st2_def rec_store_def)
  have a: "a \<notin> set (service_db st')" using assms(1) by (simp add: detached_def)
  have rh: "rhandle st2 b = rhandle st' b" if "b \<in> set (service_db st')" for b
    using that a by (auto simp: rhandle_def flds)
  have m: "map (rhandle st2) (service_db st') = map (rhandle st') (service_db st')" using rh by simp
  have "repo_inv st'" using assms(1) by (simp add: detached_def)
  then have inv: "repo_inv st2"
    using assms(2) by (auto simp: repo_inv_def flds m)
  have "find (\<lambda>b. rhandle st2 b = h) (service_db st') = find (\<lambda>b. rhandle st' b = h) (service_db st')" for h
    using rh by (intro find_cong) auto
  then have "lookup st2 = lookup st'" by (simp add: fun_eq_iff lookup_def flds)
  with inv assms(1) show ?thesis
    unfolding st2_def [symmetric] by (simp add: detached_def flds)
qed

lemma rec_new_detached:
  assumes "repo_inv st"
  obtains a st' where "rec_new st r = (a, st')" "detached a st st'" "rec_heap st' a = Some r"
proof (rule rec_new_effect [OF assms, of r])
  fix a st'
  assume "rec_new st r = (a, st')" "rec_heap st' a = Some r" "a \<notin> set (service_db st)" "repo_inv st'"
    "lookup st' = lookup st" "service_db st' = service_db st" "access_db st' = access_db st"
    "socket_index st' = socket_index st" "\<And>b. b \<noteq> a \<Longrightarrow> rec_heap st' b = rec_heap st b"
  then show thesis by (intro that [of a st']) (simp_all add: detached_def)
qed

lemma extract_server_new:
  fixes ds k
  defines "body \<equiv> concat (map attr_enc ds)"
  assumes "repo_inv st" and "\<forall>d \<in> set ds. rt_ok d" and "ds \<noteq> []" and "attrId (hd ds) \<noteq> SDP_ATTR_RECORD_HANDLE"
    and "length body < 65536" and "int (length (seq_image body)) \<le> bufsize" and "2 * length (seq_image body) \<le> k"
  obtains a st' r where
    "extract_pdu_server k device (seq_image body @ rest) bufsize 0xffffffff st = Ret (Some a, int (length (seq_image body)), st')"
    "detached a st st'" "rec_heap st' a = Some r" "handle r = 0xffffffff"
    "attrlist r = attrlist (recs.puts (rx_attrs ds) sdp_record_alloc)"
    "pattern r = pattern (sdp_pattern_add_uuidseq sdp_record_alloc (concat (map uuids_of ds)))"
proof -
  obtain d ds' where d: "ds = d # ds'" using assms(4) by (cases ds) auto
  have body: "body = SDP_UINT16 # put_be 2 (unat (attrId d)) @ sdp_enc d @ concat (map attr_enc ds')"
    by (simp add: body_def d attr_enc_def)
  then have ne: "body \<noteq> []" and b3: "3 \<le> length body" by simp_all
  obtain h t where h: "seq_image body = h @ body" "1 \<le> length h"
    "sdp_extract_seqtype_safe (seq_image body @ rest) bufsize 0 0 = Ret (int (length h), t, int (length body))"
    using seqtype_image_rest [OF ne assms(6,7)] by blast
  obtain a st1 where n: "rec_new st sdp_record_alloc = (a, st1)" "detached a st st1" "rec_heap st1 a = Some sdp_record_alloc"
    using rec_new_detached [OF assms(2)] by blast
  have bb: "int (length body) \<le> bufsize - int (length h)" using assms(7) h(1) by simp
  have kk: "1 + 2 * length body \<le> k" using assms(8) h by simp
  obtain r where r: "server_extract_loop k (body @ rest) (bufsize - int (length h)) (int (length body)) 0 False sdp_record_alloc = Ret (True, r)"
      "attrlist r = attrlist (recs.puts (rx_attrs ds) sdp_record_alloc)"
      "pattern r = pattern (sdp_pattern_add_uuidseq sdp_record_alloc (concat (map uuids_of ds)))"
      "handle r = 0xffffffff"
    using server_loop_enc [OF assms(3) kk [unfolded body_def] bb [unfolded body_def], of rest 0 False sdp_record_alloc] assms(4)
    by (auto simp: body_def sdp_record_alloc_def)
  have l: "rd 2 (drop 1 (body @ rest)) = Ret (put_be 2 (unat (attrId d)))"
    by (simp add: body rd_append)
  have sh: "\<not> short_of (bufsize - int (length h)) 2"
    using bb b3 by (simp add: short_of_def)
  have "extract_pdu_server k device (seq_image body @ rest) bufsize 0xffffffff st
      = Ret (Some a, int (length (seq_image body)), rec_store st1 a r)"
    using h n r(1) l sh assms(5) attrid_image [of d]
    by (simp add: extract_pdu_server_def server_record_def deref_def d)
  moreover have "detached a st (rec_store st1 a r)" using detached_store [OF n(2)] n(3) by simp
  moreover have "rec_heap (rec_store st1 a r) a = Some r" by (simp add: rec_store_def)
  ultimately show thesis using that r by blast
qed

subsection \<open>Registering\<close>

lemma find_skip: "\<not> P d \<Longrightarrow> find P (sdp_list_insert_sorted xs d f) = find P xs"
  by (induction xs) auto

lemma find_remove_skip: "\<not> P d \<Longrightarrow> find P (sdp_list_remove xs d) = find P xs"
  by (induction xs) auto

lemma data_get_other: "b \<noteq> a \<Longrightarrow> sdp_data_get (sdp_attr_replace r a d) b = sdp_data_get r b"
proof -
  assume ne: "b \<noteq> a"
  have "attrId p = a" if "sdp_data_get r a = Some p" for p
    using that by (auto simp: data_get_find find_Some_iff)
  with ne show ?thesis
    by (cases "sdp_data_get r a") (auto simp: data_get_find sdp_attr_replace_def Let_def find_skip find_remove_skip)
qed

lemma rsp_put_effect:
  assumes "n \<le> buf_size rsp"
  obtains b where "rsp_put rsp n v = Ret b" "buf_used b = put_be n v"
  using assms that by (simp add: rsp_put_def buf_put_def buf_used_def)

text \<open>What both registration paths store into a record whose attributes came from a PDU.\<close>

lemma public_attrs_effect:
  obtains r' where "public_attrs r = Ret r'" "handle r' = handle r" "svclass r' = svclass r"
    "attrlist r' = attrlist (sdp_attr_replace r SDP_ATTR_RECORD_HANDLE (Data SDP_UINT32 0 (VNum (ucast (handle r))) 5))"
    "pattern r' = (if sdp_data_get r SDP_ATTR_BROWSE_GRP_LIST = None
       then pattern (sdp_pattern_add_uuid r (UUID16 PUBLIC_BROWSE_GROUP)) else pattern r)"
proof -
  let ?d = "Data SDP_UINT32 0 (VNum (ucast (handle r))) 5"
  let ?r = "sdp_attr_replace r SDP_ATTR_RECORD_HANDLE ?d"
  have "pattern ?r = pattern r" "svclass ?r = svclass r"
    by (simp_all add: sdp_attr_replace_def Let_def split: option.split)
  moreover have "sdp_data_get ?r SDP_ATTR_BROWSE_GRP_LIST = sdp_data_get r SDP_ATTR_BROWSE_GRP_LIST"
    by (rule data_get_other) simp
  ultimately show thesis
    by (intro that [of "if sdp_data_get ?r SDP_ATTR_BROWSE_GRP_LIST = None
            then sdp_pattern_add_uuid ?r (sdp_uuid16_create PUBLIC_BROWSE_GROUP) else ?r"])
      (simp_all add: public_attrs_def replace_uint32 sdp_uuid16_create_def sdp_pattern_add_uuid_def Let_def)
qed

lemma collectable_repo [simp]:
  "repo_inv (sdp_svcdb_set_collectable a k st) = repo_inv st"
  "lookup (sdp_svcdb_set_collectable a k st) = lookup st"
  "rec_heap (sdp_svcdb_set_collectable a k st) = rec_heap st"
  "service_db (sdp_svcdb_set_collectable a k st) = service_db st"
  "access_locate (sdp_svcdb_set_collectable a k st) = access_locate st"
  "socket_index (sdp_svcdb_set_collectable a k st)
     = sdp_list_insert_sorted (socket_index st) \<lparr>idx_sock = k, idx_record = a\<rparr> compare_indices"
  by (simp_all add: sdp_svcdb_set_collectable_def fun_eq_iff lookup_def rhandle_def access_locate_def)

lemma db_inv_mono:
  "repo_inv st' \<Longrightarrow> db_inv st \<Longrightarrow> socket_index st' = socket_index st \<Longrightarrow>
   set (service_db st) \<subseteq> set (service_db st') \<Longrightarrow> db_inv st'"
  by (auto simp: db_inv_def idx_inv_def)

text \<open>The index entries of a registration: one more, unless the record is persistent.\<close>

definition index_after :: "sdp_req \<Rightarrow> addr \<Rightarrow> sdp_indexed list \<Rightarrow> sdp_indexed list" where
  "index_after req a is =
     (if req_flags req AND SDP_RECORD_PERSIST = 0
      then sdp_list_insert_sorted is \<lparr>idx_sock = req_sock req, idx_record = a\<rparr> compare_indices else is)"

lemma linked_server_add:
  assumes "detached a old db" and "db_inv old" and "rec_heap db a = Some r" and "lookup old (handle r) = None"
  obtains db1 where "sdp_record_add dev a db = Ret db1" "db_inv db1" "rec_heap db1 = rec_heap db"
    "a \<in> set (service_db db1)" "a \<notin> idx_record ` set (socket_index db1)" "socket_index db1 = socket_index old"
    "lookup db1 = (lookup old)(handle r \<mapsto> a)"
    "\<And>h. access_locate db1 h = (if h = handle r then Some \<lparr>acc_handle = h, acc_device = dev\<rparr> else access_locate old h)"
proof -
  have d: "repo_inv db" "lookup db = lookup old" "service_db db = service_db old" "socket_index db = socket_index old"
      "access_db db = access_db old" "a \<notin> set (service_db old)"
    using assms(1) by (auto simp: detached_def)
  have al: "access_locate db = access_locate old" by (simp add: fun_eq_iff access_locate_def d)
  have nl: "lookup db (handle r) = None" using assms(4) d(2) by simp
  show thesis
  proof (rule record_add_effect [OF d(1) assms(3) nl, of dev])
    fix db1
    assume 1: "sdp_record_add dev a db = Ret db1" "repo_inv db1" "rec_heap db1 = rec_heap db"
      "socket_index db1 = socket_index db" "set (service_db db1) = insert a (set (service_db db))"
      "lookup db1 = (lookup db)(handle r \<mapsto> a)"
      "\<And>h. access_locate db1 h = (if h = handle r then Some \<lparr>acc_handle = h, acc_device = dev\<rparr> else access_locate db h)"
    have "db_inv db1" by (rule db_inv_mono [OF 1(2) assms(2)]) (use 1 d in auto)
    moreover have "a \<notin> idx_record ` set (socket_index db1)"
      using assms(2) 1(4) d by (auto simp: db_inv_def idx_inv_def)
    ultimately show thesis using that [OF 1(1)] 1 d al by simp
  qed
qed

lemma register_new_effect:
  assumes "detached a old (sdb s)" and "db_inv old" and "rec_heap (sdb s) a = Some r"
    and "lookup old (handle r) = None" and "server s = Some sa" and "lookup old SDP_SERVER_RECORD_HANDLE = Some sa"
    and "4 \<le> buf_size rsp"
  obtains b s' r' where "register_new now a req rsp s = Ret (0, req, b, s')" "srv_inv s'"
    "buf_used b = put_be 4 (unat (handle r))" "lookup (sdb s') = (lookup old)(handle r \<mapsto> a)"
    "rec_heap (sdb s') a = Some r'" "public_attrs r = Ret r'"
    "socket_index (sdb s') = index_after req a (socket_index old)"
    "\<And>b. b \<noteq> a \<Longrightarrow> b \<noteq> sa \<Longrightarrow> rec_heap (sdb s') b = rec_heap old b"
    "\<And>h. access_locate (sdb s') h = (if h = handle r then Some \<lparr>acc_handle = h, acc_device = req_device req\<rparr> else access_locate old h)"
proof -
  obtain db1 where 1: "sdp_record_add (req_device req) a (sdb s) = Ret db1" "db_inv db1" "rec_heap db1 = rec_heap (sdb s)"
    "a \<in> set (service_db db1)" "a \<notin> idx_record ` set (socket_index db1)" "socket_index db1 = socket_index old"
    "lookup db1 = (lookup old)(handle r \<mapsto> a)"
    "\<And>h. access_locate db1 h = (if h = handle r then Some \<lparr>acc_handle = h, acc_device = req_device req\<rparr> else access_locate old h)"
    using linked_server_add [OF assms(1-4)] by metis
  define db2 where "db2 = (if req_flags req AND SDP_RECORD_PERSIST = 0
      then sdp_svcdb_set_collectable a (req_sock req) db1 else db1)"
  have 2: "db_inv db2" "rec_heap db2 = rec_heap (sdb s)" "lookup db2 = lookup db1" "access_locate db2 = access_locate db1"
      "socket_index db2 = index_after req a (socket_index old)"
    using 1 set_collectable_inv [OF 1(2,4,5)] by (auto simp: db2_def index_after_def)
  obtain r' where r': "public_attrs r = Ret r'" "handle r' = handle r" using public_attrs_effect [of r] by metis
  have h2: "rec_heap db2 a = Some r" using 2 assms(3) by simp
  define db3 where "db3 = rec_store db2 a r'"
  have 3: "rec_update a public_attrs db2 = Ret db3" "same_repo db2 db3"
    using rec_update_same [OF h2, of public_attrs, OF r'] by (simp_all add: db3_def)
  have inv3: "db_inv db3" "repo_inv db3" using 2(1) same_repo_db_inv [OF 3(2)] by (simp_all add: db_inv_def)
  have sa: "sa \<noteq> a" using lookup_Some [OF assms(6)] assms(1) by (auto simp: detached_def)
  have l3: "lookup db3 SDP_SERVER_RECORD_HANDLE = Some sa"
    using same_repo_lookup [OF 3(2)] 2(3) 1(7) assms(4,6) by auto
  have "sa \<in> set (service_db db3)" using lookup_Some [OF l3] by simp
  then obtain rs where rs: "rec_heap db3 sa = Some rs" using inv3(2) by (auto simp: repo_inv_def)
  have u3: "repo_inv (sdb (s\<lparr>sdb := db3\<rparr>))" "server (s\<lparr>sdb := db3\<rparr>) = Some sa" "rec_heap (sdb (s\<lparr>sdb := db3\<rparr>)) sa = Some rs"
    using inv3(2) assms(5) rs by simp_all
  obtain s' where s': "update_both now (s\<lparr>sdb := db3\<rparr>) = Ret s'" "same_repo db3 (sdb s')" "server s' = Some sa"
    "rec_heap (sdb s') = (rec_heap db3)(sa \<mapsto> sdp_attr_replace rs SDP_ATTR_SVCDB_STATE (Data SDP_UINT32 0 (VNum (ucast now)) 5))"
    by (rule update_both_effect [OF u3, of now], rule that) (use assms(5) in simp_all)
  have ha: "rec_heap (sdb s') a = Some r'" using s'(4) sa by (simp add: db3_def rec_store_def)
  obtain b where b: "rsp_put rsp 4 (unat (handle r')) = Ret b" "buf_used b = put_be 4 (unat (handle r'))"
    using rsp_put_effect [OF assms(7)] by blast
  have "register_new now a req rsp s = Ret (0, req, b, s')"
    using 1(1) 3(1) s'(1) ha b(1) by (simp add: register_new_def register_success_def db2_def deref_def)
  moreover have "srv_inv s'"
    using s'(2,3) inv3(1) l3 by (simp add: srv_inv_def same_repo_facts [OF s'(2)])
  moreover have "rec_heap (sdb s') c = rec_heap old c" if "c \<noteq> a" "c \<noteq> sa" for c
    using that s'(4) 2(2) assms(1) by (simp add: db3_def rec_store_def detached_def)
  moreover have "lookup (sdb s') = (lookup old)(handle r \<mapsto> a)"
    unfolding same_repo_lookup [OF s'(2)] same_repo_lookup [OF 3(2)] 2(3) by (rule 1(7))
  moreover have "socket_index (sdb s') = index_after req a (socket_index old)"
    using s'(2) 3(2) 2(5) by (simp add: same_repo_def)
  moreover have "access_locate (sdb s') h = (if h = handle r then Some \<lparr>acc_handle = h, acc_device = req_device req\<rparr> else access_locate old h)" for h
    unfolding same_repo_access [OF s'(2)] same_repo_access [OF 3(2)] 2(4) by (rule 1(8))
  ultimately show thesis
    using that [of b s' r'] ha r' b(2) by simp
qed

subsection \<open>The extended inquiry response fits\<close>









lemma public_attrs_Ret:
  "public_attrs r = Ret r' \<Longrightarrow> handle r' = handle r
     \<and> attrlist r' = attrlist (sdp_attr_replace r SDP_ATTR_RECORD_HANDLE (Data SDP_UINT32 0 (VNum (ucast (handle r))) 5))"
  by (rule public_attrs_effect [of r]) simp

lemma stored_attrs:
  assumes "attrlist r = attrlist (recs.puts (rx_attrs (attrlist rec)) sdp_record_alloc)" and "record_inv rec"
    and "public_attrs (r\<lparr>handle := h\<rparr>) = Ret r'"
  shows "sdp_data_get r' attr =
       (if attr = SDP_ATTR_RECORD_HANDLE then Some (Data SDP_UINT32 0 (VNum (ucast h)) 5)
        else map_option (\<lambda>d. set_attrId attr (rx d)) (sdp_data_get rec attr))"
proof -
  let ?d = "Data SDP_UINT32 0 (VNum (ucast h)) 5" and ?p = "recs.puts (rx_attrs (attrlist rec)) sdp_record_alloc"
  have "attrlist r' = attrlist (sdp_attr_replace (r\<lparr>handle := h\<rparr>) SDP_ATTR_RECORD_HANDLE ?d)"
    using public_attrs_Ret [OF assms(3)] by simp
  also have "\<dots> = attrlist (sdp_attr_replace ?p SDP_ATTR_RECORD_HANDLE ?d)"
    by (rule attr_replace_attrlist_cong) (simp add: assms(1))
  finally have "sdp_data_get r' attr = sdp_data_get (sdp_attr_replace ?p SDP_ATTR_RECORD_HANDLE ?d) attr"
    by (rule data_get_cong)
  also have "\<dots> = (if attr = SDP_ATTR_RECORD_HANDLE then Some (set_attrId SDP_ATTR_RECORD_HANDLE ?d) else sdp_data_get ?p attr)"
    by (rule recs.get_put [OF recs.inv_puts [OF record_inv_alloc]])
  finally show ?thesis
    using recs.get_puts [OF record_inv_alloc, of "rx_attrs (attrlist rec)" attr] map_of_rx_attrs [of "attrlist rec" attr] assms(2)
    by (auto simp: record_inv_def data_get_find [of rec] set_attrId_def sdp_record_alloc_def data_get_find split: option.splits)
qed

lemma register_stores:
  assumes "srv_inv s" and "length (service_db (sdb s)) < 2 ^ 32 - 2 ^ 16" and "length (service_db (sdb s)) < fuel"
    and "record_inv rec" and "\<forall>d \<in> set (attrlist rec). rt_ok d" and "attrlist rec \<noteq> []"
    and "sdp_data_get rec SDP_ATTR_RECORD_HANDLE = None"
    and "length (concat (map attr_enc (attrlist rec))) < 65536"
    and "2 * length (seq_image (concat (map attr_enc (attrlist rec)))) \<le> fuel"
    and "length hdr = 5" and "flags AND SDP_DEVICE_RECORD = 0"
    and "req_buf req = hdr @ [flags] @ seq_image (concat (map attr_enc (attrlist rec)))"
    and "req_len req = int (length (req_buf req))" and "4 \<le> buf_size rsp"
  obtains h a b s' r' where
    "service_register_req fuel now req rsp s = Ret (0, req\<lparr>req_flags := flags\<rparr>, b, s')" "srv_inv s'"
    "0x10000 \<le> h" "lookup (sdb s) h = None" "buf_used b = put_be 4 (unat h)"
    "lookup (sdb s') = (lookup (sdb s))(h \<mapsto> a)" "rec_heap (sdb s') a = Some r'" "handle r' = h"
    "\<And>attr. sdp_data_get r' attr =
       (if attr = SDP_ATTR_RECORD_HANDLE then Some (Data SDP_UINT32 0 (VNum (ucast h)) 5)
        else map_option (\<lambda>d. set_attrId attr (rx d)) (sdp_data_get rec attr))"
    "socket_index (sdb s') = index_after (req\<lparr>req_flags := flags\<rparr>) a (socket_index (sdb s))"
proof -
  let ?ds = "attrlist rec" and ?body = "concat (map attr_enc (attrlist rec))" and ?req = "req\<lparr>req_flags := flags\<rparr>"
  obtain sa where inv: "db_inv (sdb s)" "repo_inv (sdb s)" "server s = Some sa" "lookup (sdb s) SDP_SERVER_RECORD_HANDLE = Some sa"
    using assms(1) by (auto simp: srv_inv_def db_inv_def)
  have hd: "attrId (hd ?ds) \<noteq> SDP_ATTR_RECORD_HANDLE"
    using assms(6,7) by (cases ?ds) (auto simp: data_get_find)
  have bs: "int (length (seq_image ?body)) \<le> req_len req - int pdu_hdr_size"
    using assms(10,12,13) by simp
  obtain a db1 r where e:
    "extract_pdu_server fuel (req_device ?req) (seq_image ?body @ []) (req_len req - int pdu_hdr_size) 0xffffffff (sdb s)
       = Ret (Some a, int (length (seq_image ?body)), db1)"
    "detached a (sdb s) db1" "rec_heap db1 a = Some r" "handle r = 0xffffffff"
    "attrlist r = attrlist (recs.puts (rx_attrs ?ds) sdp_record_alloc)"
    by (rule extract_server_new [OF inv(2) assms(5,6) hd assms(8) bs assms(9)])
  have db1: "repo_inv db1" "service_db db1 = service_db (sdb s)" "lookup db1 = lookup (sdb s)"
    using e(2) by (auto simp: detached_def)
  obtain h where h: "sdp_next_handle fuel db1 = Ret h" "0x10000 \<le> h" "lookup (sdb s) h = None"
    using next_handle_returns [OF db1(1), of fuel] assms(2,3) db1 find_eq [OF db1(1)] by auto
  define db2 where "db2 = rec_store db1 a (r\<lparr>handle := h\<rparr>)"
  have d2: "detached a (sdb s) (sdb (s\<lparr>sdb := db2\<rparr>))" "rec_heap (sdb (s\<lparr>sdb := db2\<rparr>)) a = Some (r\<lparr>handle := h\<rparr>)"
    using detached_store [OF e(2)] e(3) by (simp_all add: db2_def) (simp add: rec_store_def)
  have l2: "lookup (sdb s) (handle (r\<lparr>handle := h\<rparr>)) = None" "server (s\<lparr>sdb := db2\<rparr>) = Some sa" using h inv by simp_all
  obtain b s' r' where n: "register_new now a ?req rsp (s\<lparr>sdb := db2\<rparr>) = Ret (0, ?req, b, s')" "srv_inv s'"
    "buf_used b = put_be 4 (unat h)" "lookup (sdb s') = (lookup (sdb s))(h \<mapsto> a)"
    "rec_heap (sdb s') a = Some r'" "public_attrs (r\<lparr>handle := h\<rparr>) = Ret r'"
    "socket_index (sdb s') = index_after ?req a (socket_index (sdb s))"
    by (rule register_new_effect [OF d2(1) inv(1) d2(2) l2 inv(4) assms(14), of now ?req], rule that) simp_all
  have hl: "\<not> h < 0x10000" using h(2) by simp
  have fl: "rd (Suc 0) (drop 5 (req_buf req)) = Ret [flags]" "drop 6 (req_buf req) = seq_image ?body"
    using assms(10,12) by simp_all
  have "service_register_req fuel now req rsp s = Ret (0, ?req, b, s')"
    using e(1,3,4) h(1) hl n(1) fl assms(11)
    by (simp add: service_register_req_def deref_def db2_def [symmetric])
  then show thesis
    using that [of b s' h a r'] h(2,3) n stored_attrs [OF e(5) assms(4) n(6)] public_attrs_Ret [OF n(6)] by simp
qed

lemma index_after_records:
  "socket_records (index_after req a is) k =
     (if req_flags req AND SDP_RECORD_PERSIST = 0 \<and> req_sock req = k then insert a (socket_records is k)
      else socket_records is k)"
  by (auto simp: index_after_def socket_records_def image_iff conj_disj_distribR ex_disj_distrib)

text \<open>
  C10: a client that generates a record's PDU and registers it finds it stored: the request
  succeeds and answers with a new handle of at least \<open>0x10000\<close>, a lookup of this handle now
  returns a record with exactly the attributes that were sent and the handle added, every
  other lookup is as before, and the record dies with the client's socket unless the client
  asked for it to persist. The record must not bring a handle of its own.
\<close>

theorem register_stores_record:
  assumes "srv_inv s" and "length (service_db (sdb s)) < 2 ^ 32 - 2 ^ 16" and "length (service_db (sdb s)) < fuel"
    and "record_inv rec" and "\<forall>d \<in> set (attrlist rec). rt_ok d" and "attrlist rec \<noteq> []"
    and "sdp_data_get rec SDP_ATTR_RECORD_HANDLE = None"
    and "length (concat (map attr_enc (attrlist rec))) < 65536"
    and "sdp_gen_record_pdu rec = Ret pdu" and "2 * length (buf_used pdu) \<le> fuel"
    and "length hdr = 5" and "flags AND SDP_DEVICE_RECORD = 0"
    and "req_buf req = hdr @ [flags] @ buf_used pdu"
    and "req_len req = int (length (req_buf req))" and "4 \<le> buf_size rsp"
  shows "\<exists>h a b s' r'. service_register_req fuel now req rsp s = Ret (0, req\<lparr>req_flags := flags\<rparr>, b, s') \<and> srv_inv s'
    \<and> 0x10000 \<le> h \<and> sdp_record_find (sdb s) h = Ret None \<and> buf_used b = put_be 4 (unat h)
    \<and> (\<forall>g. sdp_record_find (sdb s') g = (if g = h then Ret (Some a) else sdp_record_find (sdb s) g))
    \<and> rec_heap (sdb s') a = Some r' \<and> handle r' = h
    \<and> (\<forall>attr. sdp_data_get r' attr =
         (if attr = SDP_ATTR_RECORD_HANDLE then Some (Data SDP_UINT32 0 (VNum (ucast h)) 5)
          else map_option (\<lambda>d. set_attrId attr (rx d)) (sdp_data_get rec attr)))
    \<and> (\<forall>k. socket_records (socket_index (sdb s')) k =
         (if flags AND SDP_RECORD_PERSIST = 0 \<and> req_sock req = k then insert a (socket_records (socket_index (sdb s)) k)
          else socket_records (socket_index (sdb s)) k))"
proof -
  have "\<forall>d \<in> set (attrlist rec). gen_ok d" using assms(5) rt_ok_gen_ok by blast
  then have pdu: "buf_used pdu = seq_image (concat (map attr_enc (attrlist rec)))"
    using gen_record_pdu_eq [of rec] assms(9) by (cases "attrs_fit (attrlist rec)") auto
  obtain h a b s' r' where r:
    "service_register_req fuel now req rsp s = Ret (0, req\<lparr>req_flags := flags\<rparr>, b, s')" "srv_inv s'"
    "0x10000 \<le> h" "lookup (sdb s) h = None" "buf_used b = put_be 4 (unat h)"
    "lookup (sdb s') = (lookup (sdb s))(h \<mapsto> a)" "rec_heap (sdb s') a = Some r'" "handle r' = h"
    "\<And>attr. sdp_data_get r' attr =
       (if attr = SDP_ATTR_RECORD_HANDLE then Some (Data SDP_UINT32 0 (VNum (ucast h)) 5)
        else map_option (\<lambda>d. set_attrId attr (rx d)) (sdp_data_get rec attr))"
    "socket_index (sdb s') = index_after (req\<lparr>req_flags := flags\<rparr>) a (socket_index (sdb s))"
    by (rule register_stores [OF assms(1-8) assms(10) [unfolded pdu] assms(11,12) assms(13) [unfolded pdu] assms(14,15), of now], rule that)
  have inv: "repo_inv (sdb s)" "repo_inv (sdb s')" using assms(1) r(2) by (simp_all add: srv_inv_def db_inv_def)
  show ?thesis
    by (rule exI [of _ h], rule exI [of _ a], rule exI [of _ b], rule exI [of _ s'], rule exI [of _ r'])
      (use r in \<open>simp add: find_eq inv index_after_records\<close>)
qed

subsection \<open>Removing\<close>

lemma collect_repo [simp]:
  "repo_inv (sdp_svcdb_collect a st) = repo_inv st" "lookup (sdp_svcdb_collect a st) = lookup st"
  "service_db (sdp_svcdb_collect a st) = service_db st" "rec_heap (sdp_svcdb_collect a st) = rec_heap st"
  by (simp_all add: sdp_svcdb_collect_def fun_eq_iff lookup_def rhandle_def)

lemma collect_index: "db_inv st \<Longrightarrow> a \<notin> idx_record ` set (socket_index (sdp_svcdb_collect a st))"
  by (auto simp: sdp_svcdb_collect_def db_inv_def idx_inv_def collect_first_filter)

text \<open>Unlinking a record that is in no index and freeing it.\<close>

lemma unlink_free_effect:
  assumes "db_inv st" and "lookup st h = Some a"
  obtains db1 db2 where "sdp_record_remove h (sdp_svcdb_collect a st) = Ret (0, db1)"
    "sdp_record_free db1 a = Ret db2" "db_inv db2" "lookup db2 = (lookup st)(h := None)"
    "rec_heap db2 = (rec_heap st)(a := None)" "socket_index db2 = filter (\<lambda>i. idx_record i \<noteq> a) (socket_index st)"
proof -
  let ?st = "sdp_svcdb_collect a st"
  have inv: "repo_inv ?st" "lookup ?st h = Some a" using assms by (simp_all add: db_inv_def)
  have ix: "socket_index ?st = filter (\<lambda>i. idx_record i \<noteq> a) (socket_index st)"
    using assms(1) by (simp add: sdp_svcdb_collect_def db_inv_def idx_inv_def collect_first_filter)
  show thesis
  proof (rule record_remove_effect [OF inv])
    fix db1
    assume 1: "sdp_record_remove h ?st = Ret (0, db1)" "repo_inv db1" "rec_heap db1 = rec_heap ?st"
      "socket_index db1 = socket_index ?st" "service_db db1 = filter (\<lambda>b. b \<noteq> a) (service_db ?st)"
      "lookup db1 = (lookup ?st)(h := None)"
    have "a \<in> set (service_db st)" using lookup_Some [OF assms(2)] by simp
    then obtain r where "rec_heap st a = Some r" using assms(1) by (auto simp: db_inv_def repo_inv_def)
    then have r: "rec_heap db1 a = Some r" "a \<notin> set (service_db db1)" using 1 by simp_all
    show thesis
    proof (rule free_effect [OF 1(2) r])
      fix db2
      assume 2: "sdp_record_free db1 a = Ret db2" "repo_inv db2" "service_db db2 = service_db db1"
        "socket_index db2 = socket_index db1" "lookup db2 = lookup db1" "rec_heap db2 = (rec_heap db1)(a := None)"
      have "db_inv db2"
        using assms(1) 1 2 ix
        by (auto simp: db_inv_def idx_inv_def sorted_filter_key distinct_map_filter_key)
      with 1 2 ix show thesis by (intro that [of db1 db2]) simp_all
    qed
  qed
qed

lemma remove_req_read:
  "req_buf req = hdr @ put_be 4 (unat h) @ rest \<Longrightarrow> length hdr = 5 \<Longrightarrow>
   rd 4 (drop pdu_hdr_size (req_buf req)) = Ret (put_be 4 (unat (h :: u32)))"
  by (simp add: rd_append)

lemma handle_image: "of_nat (get_be (put_be 4 (unat (h :: u32)))) = h"
proof -
  have "unat h < 256 ^ 4" using unsigned_less [of h] by simp
  then show ?thesis by (simp only: get_be_put_be_id) simp
qed

text \<open>
  C11: a removal request for a record other than the server's own removes exactly this
  record: the request answers with status 0, the handle is unknown afterwards, the record
  is freed and no index entry is left for it, all other handles are found as before, and
  the invariant of the server is kept. A request for an unknown handle changes nothing and
  is answered with \<open>SDP_INVALID_RECORD_HANDLE\<close>.
\<close>

theorem remove_req_unregisters:
  assumes "srv_inv s" and "length hdr = 5" and "req_buf req = hdr @ put_be 4 (unat h) @ rest"
    and "h \<noteq> SDP_SERVER_RECORD_HANDLE" and "2 \<le> buf_size rsp"
  shows "case lookup (sdb s) h of
      None \<Rightarrow> \<exists>b. service_remove_req now req rsp s = Ret (2, b, s) \<and> buf_used b = put_be 2 2
    | Some a \<Rightarrow> \<exists>b s'. service_remove_req now req rsp s = Ret (0, b, s') \<and> buf_used b = put_be 2 0 \<and> srv_inv s'
        \<and> (\<forall>g. sdp_record_find (sdb s') g = (if g = h then Ret None else sdp_record_find (sdb s) g))
        \<and> rec_heap (sdb s') a = None
        \<and> socket_index (sdb s') = filter (\<lambda>i. idx_record i \<noteq> a) (socket_index (sdb s))"
proof (cases "lookup (sdb s) h")
  case None
  have inv: "repo_inv (sdb s)" using assms(1) by (simp add: srv_inv_def db_inv_def)
  obtain b where "rsp_put rsp 2 2 = Ret b" "buf_used b = put_be 2 2" using rsp_put_effect [OF assms(5)] by blast
  then show ?thesis
    using None by (simp add: service_remove_req_def remove_req_read [OF assms(3,2)] handle_image find_eq [OF inv])
next
  case (Some a)
  obtain sa where inv: "db_inv (sdb s)" "repo_inv (sdb s)" "server s = Some sa" "lookup (sdb s) SDP_SERVER_RECORD_HANDLE = Some sa"
    using assms(1) by (auto simp: srv_inv_def db_inv_def)
  obtain db1 db2 where d: "sdp_record_remove h (sdp_svcdb_collect a (sdb s)) = Ret (0, db1)"
    "sdp_record_free db1 a = Ret db2" "db_inv db2" "lookup db2 = (lookup (sdb s))(h := None)"
    "rec_heap db2 = (rec_heap (sdb s))(a := None)" "socket_index db2 = filter (\<lambda>i. idx_record i \<noteq> a) (socket_index (sdb s))"
    by (rule unlink_free_effect [OF inv(1) Some])
  have l2: "lookup db2 SDP_SERVER_RECORD_HANDLE = Some sa" using d(4) inv(4) assms(4) by simp
  have "sa \<in> set (service_db db2)" using lookup_Some [OF l2] by simp
  then obtain rs where rs: "rec_heap db2 sa = Some rs" using d(3) by (auto simp: db_inv_def repo_inv_def)
  have u: "repo_inv (sdb (s\<lparr>sdb := db2\<rparr>))" "server (s\<lparr>sdb := db2\<rparr>) = Some sa" "rec_heap (sdb (s\<lparr>sdb := db2\<rparr>)) sa = Some rs"
    using d(3) inv(3) rs by (simp_all add: db_inv_def)
  obtain s' where s': "update_both now (s\<lparr>sdb := db2\<rparr>) = Ret s'" "same_repo db2 (sdb s')" "server s' = Some sa"
    by (rule update_both_effect [OF u, of now], rule that) (use inv(3) in simp_all)
  obtain b where b: "rsp_put rsp 2 0 = Ret b" "buf_used b = put_be 2 0" using rsp_put_effect [OF assms(5)] by blast
  have "service_remove_req now req rsp s = Ret (0, b, s')"
    using Some d(1,2) s'(1) b(1)
    by (simp add: service_remove_req_def remove_req_read [OF assms(3,2)] handle_image find_eq [OF inv(2)])
  moreover have "srv_inv s'" using s'(3) d(3) l2 by (simp add: srv_inv_def same_repo_facts [OF s'(2)])
  moreover have "rec_heap (sdb s') a = None" using same_repo_live [OF s'(2), of a] d(5) by simp
  moreover have "socket_index (sdb s') = socket_index db2" using s'(2) by (simp add: same_repo_def)
  moreover have "repo_inv (sdb s')" using calculation(2) by (simp add: srv_inv_def db_inv_def)
  ultimately show ?thesis
    using Some b(2) d(4,6) by (auto simp: find_eq inv same_repo_lookup [OF s'(2)])
qed

text \<open>
  C35: a removal request for handle 0, the server's own record, is an access to freed
  memory: the record is unlinked and freed, and the time stamp of the change is then
  written through the server's pointer to it.
\<close>

theorem remove_server_record_use_after_free:
  assumes "srv_inv s" and "length hdr = 5" and "req_buf req = hdr @ put_be 4 0 @ rest"
  shows "service_remove_req now req rsp s = Fault"
proof -
  obtain sa where inv: "db_inv (sdb s)" "repo_inv (sdb s)" "server s = Some sa" "lookup (sdb s) 0 = Some sa"
    using assms(1) by (auto simp: srv_inv_def db_inv_def)
  obtain db1 db2 where d: "sdp_record_remove 0 (sdp_svcdb_collect sa (sdb s)) = Ret (0, db1)"
    "sdp_record_free db1 sa = Ret db2" "rec_heap db2 = (rec_heap (sdb s))(sa := None)"
    by (rule unlink_free_effect [OF inv(1,4)])
  have "update_both now (s\<lparr>sdb := db2\<rparr>) = Fault"
    using inv(3) d(3) by (simp add: update_both_def update_db_timestamp_def rec_update_def deref_def)
  then show ?thesis
    using d inv remove_req_read [of req hdr 0 rest] handle_image [of 0] assms(2,3)
    by (simp add: service_remove_req_def find_eq)
qed

subsection \<open>Witnesses\<close>

text \<open>A server with its own record and one record registered through socket 5.\<close>

definition ex_srv :: sdp_server where
  "ex_srv = \<lparr>sdb = \<lparr>rec_heap = [0 \<mapsto> sdp_record_alloc\<lparr>handle := 0\<rparr>, 1 \<mapsto> sdp_record_alloc\<lparr>handle := 0x10000\<rparr>],
       next_rec = 2, service_db = [0, 1],
       access_db = [\<lparr>acc_handle = 0, acc_device = BDADDR_ANY\<rparr>, \<lparr>acc_handle = 0x10000, acc_device = BDADDR_ANY\<rparr>],
       socket_index = [\<lparr>idx_sock = 5, idx_record = 1\<rparr>]\<rparr>,
     server = Some 0, service_classes = 0, callback_set = False, notified = [],
     did_vendor = 0, did_product = 0, did_version = 0\<rparr>"

definition ex_req :: "byte list \<Rightarrow> sdp_req" where
  "ex_req buf = \<lparr>req_device = BDADDR_ANY, req_bdaddr = BDADDR_ANY, req_local = True, req_sock = 7, req_mtu = 2048,
     req_flags = 0, req_buf = buf, req_len = int (length buf)\<rparr>"

definition ex_rsp :: sdp_buf where
  "ex_rsp = \<lparr>buf_bytes = replicate 8 0, data_size = 0\<rparr>"

definition ex_rec :: sdp_record where
  "ex_rec = snd (sdp_attr_add sdp_record_alloc 5 (Data SDP_UINT8 0 (VNum 7) 2))"

lemma ex_srv_inv: "srv_inv ex_srv"
  by (simp add: srv_inv_def ex_srv_def db_inv_def repo_inv_def idx_inv_def rhandle_def lookup_def)

lemma ex_rec_attrs: "attrlist ex_rec = [Data SDP_UINT8 5 (VNum 7) 2]"
  by (simp add: ex_rec_def sdp_attr_add_def sdp_data_get_def sdp_record_alloc_def set_attrId_def Let_def)

lemma ex_rec_ok:
  "record_inv ex_rec" "\<forall>d \<in> set (attrlist ex_rec). rt_ok d" "attrlist ex_rec \<noteq> []"
  "sdp_data_get ex_rec SDP_ATTR_RECORD_HANDLE = None" "length (concat (map attr_enc (attrlist ex_rec))) = 5"
  "attrs_fit (attrlist ex_rec)"
  by (simp_all add: ex_rec_attrs data_get_find attr_enc_def attrs_fit_def scalar_rt_ok_def num_width_def is_str_def
      is_seq_alt_def scalar_bytes_def)
    (simp add: ex_rec_def sdp_attr_add_def sdp_data_get_def sdp_record_alloc_def set_attrId_def Let_def record_inv_def)

theorem register_stores_record_witness:
  "\<exists>pdu h a b s'. sdp_gen_record_pdu ex_rec = Ret pdu
    \<and> service_register_req 100 0 (ex_req ([1, 2, 3, 4, 5] @ [0] @ buf_used pdu)) ex_rsp ex_srv
       = Ret (0, (ex_req ([1, 2, 3, 4, 5] @ [0] @ buf_used pdu))\<lparr>req_flags := 0\<rparr>, b, s')
    \<and> 0x10000 \<le> h \<and> sdp_record_find (sdb s') h = Ret (Some a)"
proof -
  have g: "\<forall>d \<in> set (attrlist ex_rec). gen_ok d" using ex_rec_ok(2) rt_ok_gen_ok by blast
  obtain pdu where pdu: "sdp_gen_record_pdu ex_rec = Ret pdu" "buf_used pdu = seq_image (concat (map attr_enc (attrlist ex_rec)))"
    using gen_record_pdu_eq(1) [OF g ex_rec_ok(6)] by blast
  let ?req = "ex_req ([1, 2, 3, 4, 5] @ [0] @ buf_used pdu)"
  have l: "length (seq_image (concat (map attr_enc (attrlist ex_rec)))) = 7"
    using ex_rec_ok(5) by (simp only: seq_image_def) (auto simp del: concat.simps concat_eq_Nil_conv)
  have "\<exists>h a b s' r'. service_register_req 100 0 ?req ex_rsp ex_srv = Ret (0, ?req\<lparr>req_flags := 0\<rparr>, b, s') \<and> srv_inv s'
    \<and> 0x10000 \<le> h \<and> sdp_record_find (sdb ex_srv) h = Ret None \<and> buf_used b = put_be 4 (unat h)
    \<and> (\<forall>g. sdp_record_find (sdb s') g = (if g = h then Ret (Some a) else sdp_record_find (sdb ex_srv) g))
    \<and> rec_heap (sdb s') a = Some r' \<and> handle r' = h
    \<and> (\<forall>attr. sdp_data_get r' attr =
         (if attr = SDP_ATTR_RECORD_HANDLE then Some (Data SDP_UINT32 0 (VNum (ucast h)) 5)
          else map_option (\<lambda>d. set_attrId attr (rx d)) (sdp_data_get ex_rec attr)))
    \<and> (\<forall>k. socket_records (socket_index (sdb s')) k =
         (if (0 :: byte) AND SDP_RECORD_PERSIST = 0 \<and> req_sock ?req = k then insert a (socket_records (socket_index (sdb ex_srv)) k)
          else socket_records (socket_index (sdb ex_srv)) k))"
    by (rule register_stores_record [where hdr = "[1, 2, 3, 4, 5]" and pdu = pdu and rec = ex_rec])
      (use ex_srv_inv ex_rec_ok(1-5) pdu l in \<open>simp_all add: ex_req_def ex_rsp_def ex_srv_def\<close>)
  then obtain h a b s' where "service_register_req 100 0 ?req ex_rsp ex_srv = Ret (0, ?req\<lparr>req_flags := 0\<rparr>, b, s')"
      "0x10000 \<le> h" "sdp_record_find (sdb s') h = Ret (Some a)" by auto
  then show ?thesis using pdu(1) by blast
qed

theorem remove_req_unregisters_witness:
  "\<exists>b s'. service_remove_req 0 (ex_req ([1, 2, 3, 4, 5] @ put_be 4 0x10000)) ex_rsp ex_srv = Ret (0, b, s')
     \<and> sdp_record_find (sdb s') 0x10000 = Ret None \<and> socket_index (sdb s') = []"
proof -
  have "lookup (sdb ex_srv) 0x10000 = Some 1" by (simp add: ex_srv_def lookup_def rhandle_def)
  then show ?thesis
    using remove_req_unregisters [OF ex_srv_inv, of "[1, 2, 3, 4, 5]" "ex_req ([1, 2, 3, 4, 5] @ put_be 4 0x10000)" "0x10000" "[]" ex_rsp 0]
    by (auto simp: ex_req_def ex_rsp_def) (simp add: ex_srv_def)
qed

theorem remove_server_record_use_after_free_witness:
  "service_remove_req 0 (ex_req ([1, 2, 3, 4, 5] @ put_be 4 0)) ex_rsp ex_srv = Fault"
  using remove_server_record_use_after_free [OF ex_srv_inv, of "[1, 2, 3, 4, 5]" "ex_req ([1, 2, 3, 4, 5] @ put_be 4 0)" "[]"]
  by (simp add: ex_req_def)



text \<open>
  C25: whenever the service classes are recomputed, a bit of the class of device is set if
  and only if some record of the repository has a 16-bit service class with this bit; the
  repository is not changed and the daemon's callback, if set, is told the new value.
\<close>

theorem service_classes_union:
  assumes "repo_inv (sdb s)"
  shows "\<exists>s'. update_svclass_list s = Ret s' \<and> sdb s' = sdb s
    \<and> (\<forall>n. bit (get_service_classes s' BDADDR_ANY) n \<longleftrightarrow> class_bit (sdb s) (service_db (sdb s)) n)
    \<and> notified s' = (if callback_set s then notified s @ [service_classes s'] else notified s)"
proof -
  have "\<forall>a \<in> set (service_db (sdb s)). rec_heap (sdb s) a \<noteq> None" using assms by (simp add: repo_inv_def)
  from svclass_loop_bits [OF this, of 0] obtain v where
    v: "svclass_loop (sdb s) (service_db (sdb s)) 0 = Ret v" "\<forall>n. bit v n \<longleftrightarrow> class_bit (sdb s) (service_db (sdb s)) n" by auto
  let ?s = "s\<lparr>service_classes := v, notified := if callback_set s then notified s @ [v] else notified s\<rparr>"
  show ?thesis
    using v by (intro exI [of _ ?s]) (simp add: update_svclass_list_def sdp_get_record_list_def get_service_classes_def)
qed

theorem service_classes_union_witness:
  "\<exists>s'. update_svclass_list ex_srv = Ret s' \<and> \<not> bit (service_classes s') 3"
proof -
  have inv: "repo_inv (sdb ex_srv)" using ex_srv_inv by (simp add: srv_inv_def db_inv_def)
  have "\<not> class_bit (sdb ex_srv) (service_db (sdb ex_srv)) 3"
    by (simp add: class_bit_def ex_srv_def sdp_record_alloc_def)
  with service_classes_union [OF inv] show ?thesis by (auto simp: get_service_classes_def)
qed

text \<open>
  The search for a class that is already listed only recognises it in the last place,
  so records with the classes A, B, A put A into the response twice.
\<close>

theorem eir_lists_class_twice:
  assumes "rec_heap st a = Some r" and "svclass r = UUID16 u" and "rec_heap st b = Some q" and "svclass q = UUID16 v"
    and "rec_heap st c = Some p" and "svclass p = UUID16 u" and "0x1100 \<le> u" and "0x1100 \<le> v" and "u \<noteq> v"
  shows "eir_loop st [a, b, c] [] = Ret ([u, v, u], 0x03)"
proof -
  have "\<not> u < 0x1100" "\<not> v < 0x1100" using assms(7,8) by simp_all
  with assms(1-6,9) show ?thesis by (simp add: deref_def)
qed

theorem eir_lists_class_twice_witness:
  "eir_loop (ex_db\<lparr>rec_heap := [0 \<mapsto> sdp_record_alloc\<lparr>svclass := UUID16 0x1101\<rparr>,
        1 \<mapsto> sdp_record_alloc\<lparr>svclass := UUID16 0x1102\<rparr>, 2 \<mapsto> sdp_record_alloc\<lparr>handle := 5, svclass := UUID16 0x1101\<rparr>]\<rparr>)
     [0, 1, 2] [] = Ret ([0x1101, 0x1102, 0x1101], 0x03)"
  by (rule eir_lists_class_twice) (simp add: sdp_record_alloc_def)+

end
