(* ===== verification/SDP_Request.thy ===== *)
theory SDP_Request
  imports SDP_Service
begin

section \<open>Requests of the SDP server\<close>

text \<open>
  \<open>utils/sdpd/request.c\<close> and the event loop of \<open>utils/sdpd/server.c\<close>: service search,
  attribute and combined requests with their continuation states, the dispatcher and the
  end of a session. The state is that of \<open>service.c\<close> and the response cache. The answer
  of a request is the byte string handed to \<open>send\<close>; the bytes of a request are those that
  were received, and a read behind them is a \<open>Fault\<close>.

  \<open>buf->data += 2\<close> around the attribute responses makes \<open>buf->data\<close> a pointer into the
  middle of an allocated block: growing such a buffer would pass it to \<open>realloc\<close>, which is
  a \<open>Fault\<close> here (\<open>no_realloc\<close>).
\<close>

record sdpd =
  srv :: sdp_server
  cstates :: "cached_rsp list"

abbreviation SDP_TYPE_UUID :: byte where "SDP_TYPE_UUID \<equiv> 0xfe"
abbreviation SDP_TYPE_ANY :: byte where "SDP_TYPE_ANY \<equiv> 0xff"
abbreviation (input) SDP_INVALID_PDU_SIZE :: nat where "SDP_INVALID_PDU_SIZE \<equiv> 4"
abbreviation (input) SDP_INVALID_CSTATE :: nat where "SDP_INVALID_CSTATE \<equiv> 5"
abbreviation (input) USHRT_MAX :: nat where "USHRT_MAX \<equiv> 65535"

subsection \<open>Sequences of UUIDs and attribute ids\<close>

datatype des_elem = E16 u16 | E32 u32 | EUuid sdp_uuid

text \<open>
  One element of \<open>extract_des\<close>: \<open>None\<close> is its \<open>return -1\<close>; an element that is \<open>None\<close> is a
  UUID that could not be read, with nothing consumed.
\<close>

definition read_elem :: "byte list \<Rightarrow> int \<Rightarrow> byte \<Rightarrow> (des_elem option \<times> int) option run" where
  "read_elem p bufsize dataType =
     (if dataType = SDP_UINT16 then
        (if short_of (bufsize - 1) 2 then Ret None
         else run_bind (rd 2 (drop 1 p)) (\<lambda>v. Ret (Some (Some (E16 (of_nat (get_be v))), 3))))
      else if dataType = SDP_UINT32 then
        (if bufsize - 1 < 4 then Ret None
         else run_bind (rd 4 (drop 1 p)) (\<lambda>v. Ret (Some (Some (E32 (of_nat (get_be v))), 5))))
      else if dataType \<in> {SDP_UUID16, SDP_UUID32, SDP_UUID128} then
        run_bind (sdp_uuid_extract_safe p bufsize 0) (\<lambda>(r, n).
          case r of Some u \<Rightarrow> Ret (Some (Some (EUuid u), n)) | None \<Rightarrow> Ret (Some (None, 0)))
      else Ret None)"

definition expected_type :: "byte \<Rightarrow> byte \<Rightarrow> bool" where
  "expected_type expectedType dataType =
     (if expectedType = SDP_TYPE_UUID then dataType \<in> {SDP_UUID16, SDP_UUID32, SDP_UUID128}
      else expectedType = SDP_TYPE_ANY \<or> dataType = expectedType)"

fun des_loop ::
    "nat \<Rightarrow> byte list \<Rightarrow> int \<Rightarrow> int \<Rightarrow> int \<Rightarrow> int \<Rightarrow> byte \<Rightarrow> des_elem list \<Rightarrow> (int \<times> des_elem list \<times> byte) option run" where
  "des_loop 0 p bufsize seqlen datasize len expectedType pSeq = NoFuel"
| "des_loop (Suc k) p bufsize seqlen datasize len expectedType pSeq =
     (if short_of bufsize 1 then Ret None
      else run_bind (rd 1 p) (\<lambda>h.
        let dataType = hd h
        in if \<not> expected_type expectedType dataType then Ret None
           else run_bind (read_elem p bufsize dataType) (\<lambda>r.
             case r of
               None \<Rightarrow> Ret None
             | Some (None, _) \<Rightarrow> des_loop k p bufsize seqlen datasize len expectedType pSeq
             | Some (Some e, n) \<Rightarrow>
                 let seqlen' = seqlen + n; pSeq' = sdp_list_append pSeq e
                 in if seqlen' = datasize then Ret (Some (seqlen', pSeq', dataType))
                    else if datasize < seqlen' \<or> len < seqlen' then Ret None
                    else des_loop k (drop (nat n) p) (bufsize - n) seqlen' datasize len expectedType pSeq')))"

definition extract_des :: "nat \<Rightarrow> byte list \<Rightarrow> int \<Rightarrow> byte \<Rightarrow> (int \<times> des_elem list \<times> byte) option run" where
  "extract_des fuel buf len expectedType =
     run_bind (sdp_extract_seqtype_safe buf len 0 0) (\<lambda>(scanned, seqType, datasize).
       if scanned = 0 \<or> (seqType \<noteq> SDP_SEQ8 \<and> seqType \<noteq> SDP_SEQ16) then Ret None
       else run_bind (des_loop fuel (drop (nat scanned) buf) (len - scanned) 0 datasize len expectedType []) (\<lambda>r.
              case r of None \<Rightarrow> Ret None | Some (seqlen, pSeq, dataType) \<Rightarrow> Ret (Some (scanned + seqlen, pSeq, dataType))))"

subsection \<open>Continuation states\<close>

text \<open>\<open>sdp_cont_state_t\<close> with the two bytes of padding that \<open>memcpy\<close> carries along.\<close>

record sdp_cont_state =
  cs_timestamp :: u32
  cs_value :: u16
  cs_pad :: "byte list"

definition cstate_bytes :: "sdp_cont_state \<Rightarrow> byte list" where
  "cstate_bytes c = put_le 4 (unat (cs_timestamp c)) @ put_le 2 (unat (cs_value c)) @ cs_pad c"

definition sdp_set_cstate_pdu :: "sdp_buf \<Rightarrow> sdp_cont_state option \<Rightarrow> (sdp_buf \<times> nat) run" where
  "sdp_set_cstate_pdu buf cstate =
     (let bs = (case cstate of Some c \<Rightarrow> 8 # cstate_bytes c | None \<Rightarrow> [0])
      in run_bind (buf_put buf (data_size buf) bs) (\<lambda>b.
           Ret (b\<lparr>data_size := data_size b + length bs\<rparr>, length bs)))"

definition sdp_cstate_get :: "byte list \<Rightarrow> sdp_cont_state option run" where
  "sdp_cstate_get buffer =
     run_bind (rd 1 buffer) (\<lambda>h.
       if hd h \<noteq> 0
       then run_bind (rd 8 (drop 1 buffer)) (\<lambda>v.
              Ret (Some \<lparr>cs_timestamp = of_nat (get_le (take 4 v)), cs_value = of_nat (get_le (take 2 (drop 4 v))),
                         cs_pad = drop 6 v\<rparr>))
       else Ret None)"

text \<open>Reading \<open>n\<close> bytes of a block at an offset that need not be inside it.\<close>

definition rd_at :: "byte list \<Rightarrow> int \<Rightarrow> nat \<Rightarrow> byte list run" where
  "rd_at c off n = (if 0 \<le> off \<and> off + int n \<le> int (length c) then Ret (take n (drop (nat off) c)) else Fault)"

subsection \<open>Matching\<close>

fun match_loop :: "sdp_uuid list \<Rightarrow> sdp_uuid list \<Rightarrow> int" where
  "match_loop [] target = 1"
| "match_loop (u # us) target =
     (if sdp_list_find target (sdp_uuid_to_uuid128 u) sdp_uuid128_cmp = None then 0 else match_loop us target)"

definition sdp_match_uuid :: "sdp_uuid list \<Rightarrow> sdp_uuid list \<Rightarrow> int" where
  "sdp_match_uuid search target =
     (if sdp_list_len target < sdp_list_len search then -1 else match_loop search target)"

text \<open>A search pattern was extracted with \<open>SDP_TYPE_UUID\<close>, so all its elements are UUIDs.\<close>

definition pattern_uuids :: "des_elem list \<Rightarrow> sdp_uuid list" where
  "pattern_uuids es = List.map_filter (\<lambda>e. case e of EUuid u \<Rightarrow> Some u | _ \<Rightarrow> None) es"

definition rec_matches :: "sdp_db \<Rightarrow> bdaddr \<Rightarrow> des_elem list \<Rightarrow> sdp_record \<Rightarrow> bool" where
  "rec_matches st device pat rec \<longleftrightarrow>
     sdp_match_uuid (pattern_uuids pat) (pattern rec) > 0 \<and> sdp_check_access st (handle rec) device"

subsection \<open>Service search\<close>

fun search_loop ::
    "sdp_db \<Rightarrow> bdaddr \<Rightarrow> des_elem list \<Rightarrow> addr list \<Rightarrow> nat \<Rightarrow> nat \<Rightarrow> sdp_buf \<Rightarrow> (nat \<times> sdp_buf) run" where
  "search_loop st device pat [] expected n buf = Ret (n, buf)"
| "search_loop st device pat (a # as) expected n buf =
     (if expected \<le> n then Ret (n, buf)
      else run_bind (deref st a) (\<lambda>rec.
        if rec_matches st device pat rec
        then run_bind (buf_put buf (4 + 4 * n) (put_be 4 (unat (handle rec)))) (\<lambda>b.
               search_loop st device pat as expected (n + 1) b)
        else search_loop st device pat as expected n buf))"

text \<open>The loop that copies handles out of a cached response.\<close>

fun copy_handles :: "byte list \<Rightarrow> int \<Rightarrow> nat \<Rightarrow> int \<Rightarrow> sdp_buf \<Rightarrow> nat \<Rightarrow> (int \<times> sdp_buf) run" where
  "copy_handles c i 0 n buf off = Ret (i, buf)"
| "copy_handles c i (Suc k) n buf off =
     (if i < n
      then run_bind (rd_at c (4 + 4 * i) 4) (\<lambda>v.
           run_bind (buf_put buf off v) (\<lambda>b. copy_handles c (i + 1) k n b (off + 4)))
      else Ret (i, buf))"

text \<open>The end of both ways to build a partial response: counts and the next state.\<close>

definition search_counts :: "sdp_buf \<Rightarrow> nat \<Rightarrow> int \<Rightarrow> int \<Rightarrow> sdp_cont_state \<Rightarrow> sdp_buf run" where
  "search_counts buf rsp_count i lastIndex newState =
     (let sent = nat ((i - lastIndex) mod 65536)
      in run_bind (buf_put buf 0 (put_be 2 rsp_count @ put_be 2 sent)) (\<lambda>b.
         run_bind (sdp_set_cstate_pdu b (if i = int rsp_count then None else Some newState)) (\<lambda>(b', _). Ret b')))"

definition search_new ::
    "u32 \<Rightarrow> sdpd \<Rightarrow> bdaddr \<Rightarrow> des_elem list \<Rightarrow> nat \<Rightarrow> nat \<Rightarrow> sdp_buf \<Rightarrow> (nat \<times> sdp_buf \<times> sdpd) run" where
  "search_new now d device pat expected actual buf =
     (let st = sdb (srv d) in
      run_bind (search_loop st device pat (sdp_get_record_list st) expected 0 buf) (\<lambda>(n, b1).
      run_bind (buf_put (b1\<lparr>data_size := data_size b1 + 4 * n\<rparr>) 0 (put_be 2 n @ put_be 2 n)) (\<lambda>b2.
        if actual < n
        then run_bind (sdp_cstate_alloc_buf (cstates d) b2 now) (\<lambda>(cStateId, cs).
               let b3 = b2\<lparr>data_size := data_size b2 - 4 * n\<rparr>
               in if 0 < cStateId
                  then run_bind (search_counts (b3\<lparr>data_size := data_size b3 + 4 * actual\<rparr>) n (int actual) 0
                                   \<lparr>cs_timestamp = cStateId, cs_value = of_nat actual, cs_pad = [0, 0]\<rparr>)
                         (\<lambda>b4. Ret (0, b4, d\<lparr>cstates := cs\<rparr>))
                  else Ret (0, b3, d\<lparr>cstates := cs\<rparr>))
        else run_bind (sdp_set_cstate_pdu b2 None) (\<lambda>(b3, _). Ret (0, b3, d)))))"

definition search_continue ::
    "sdpd \<Rightarrow> sdp_cont_state \<Rightarrow> nat \<Rightarrow> sdp_buf \<Rightarrow> (nat \<times> sdp_buf \<times> sdpd) run" where
  "search_continue d cstate actual buf =
     (case sdp_get_cached_rsp (cstates d) (cs_timestamp cstate) of
        None \<Rightarrow> Ret (SDP_INVALID_CSTATE, buf, d)
      | Some c \<Rightarrow>
          run_bind (rd_at (buf_bytes c) 0 2) (\<lambda>v.
          let rsp_count = get_be v; lastIndex = sint (cs_value cstate)
          in run_bind (copy_handles (buf_bytes c) lastIndex actual (int rsp_count) buf 4) (\<lambda>(i, b1).
             run_bind (search_counts (b1\<lparr>data_size := data_size b1 + 4 * nat (i - lastIndex)\<rparr>) rsp_count i lastIndex
                         (cstate\<lparr>cs_value := of_int i\<rparr>)) (\<lambda>b2. Ret (0, b2, d)))))"

definition plen_of :: "sdp_req \<Rightarrow> int run" where
  "plen_of req = run_bind (rd 2 (drop 3 (req_buf req))) (\<lambda>v. Ret (int (get_be v)))"

definition service_search_req :: "nat \<Rightarrow> u32 \<Rightarrow> sdp_req \<Rightarrow> sdp_buf \<Rightarrow> sdpd \<Rightarrow> (nat \<times> sdp_buf \<times> sdpd) run" where
  "service_search_req fuel now req buf d =
     run_bind (extract_des fuel (drop 5 (req_buf req)) (req_len req - 5) SDP_TYPE_UUID) (\<lambda>r.
       case r of
         None \<Rightarrow> Ret (SDP_INVALID_SYNTAX, buf, d)
       | Some (scanned, pat, dt) \<Rightarrow>
           let pdata = drop (5 + nat scanned) (req_buf req); mlen = scanned + 3
           in run_bind (plen_of req) (\<lambda>plen.
              if plen < mlen then Ret (SDP_INVALID_SYNTAX, buf, d)
              else run_bind (rd 1 (drop 2 pdata)) (\<lambda>c.
                if plen \<noteq> mlen + int (unat (hd c)) then Ret (SDP_INVALID_SYNTAX, buf, d)
                else run_bind (rd 2 pdata) (\<lambda>e.
                     run_bind (sdp_cstate_get (drop 2 pdata)) (\<lambda>cstate.
                     let expected = get_be e; mtu = req_mtu req - 18;
                         actual = nat ((if int expected < mtu div 4 then int expected else mtu div 4) mod 65536)
                     in run_bind (buf_put buf 0 [0, 0, 0, 0]) (\<lambda>b.
                        let b1 = b\<lparr>data_size := data_size b + 4\<rparr>
                        in case cstate of
                             None \<Rightarrow> search_new now d (req_device req) pat expected actual b1
                           | Some cs \<Rightarrow> search_continue d cs actual b1))))))"

subsection \<open>Attributes\<close>

text \<open>
  The elements of an attribute list are read back with the type of the last element. Only
  reading a number as itself or the low half of a wider one is inside what was stored.
\<close>

fun as_u16 :: "des_elem \<Rightarrow> u16 run" where
  "as_u16 (E16 a) = Ret a"
| "as_u16 (E32 r) = Ret (ucast r)"
| "as_u16 (EUuid u) = Fault"

fun as_u32 :: "des_elem \<Rightarrow> u32 run" where
  "as_u32 (E32 r) = Ret r"
| "as_u32 _ = Fault"

fun append_attrs :: "sdp_record \<Rightarrow> u16 list \<Rightarrow> sdp_buf \<Rightarrow> sdp_buf run" where
  "append_attrs rec [] buf = Ret buf"
| "append_attrs rec (a # as) buf =
     run_bind (case sdp_data_get rec a of Some d \<Rightarrow> sdp_append_to_pdu buf d | None \<Rightarrow> Ret buf)
       (append_attrs rec as)"

fun attr_id_loop :: "sdp_record \<Rightarrow> des_elem list \<Rightarrow> sdp_buf \<Rightarrow> sdp_buf run" where
  "attr_id_loop rec [] buf = Ret buf"
| "attr_id_loop rec (e # es) buf =
     run_bind (as_u16 e) (\<lambda>a. run_bind (append_attrs rec [a] buf) (attr_id_loop rec es))"

definition range_ids :: "u16 \<Rightarrow> u16 \<Rightarrow> u16 list" where
  "range_ids low high = map of_nat [unat low ..< unat high] @ [high]"

fun attr_range_loop :: "sdp_record \<Rightarrow> sdp_buf \<Rightarrow> des_elem list \<Rightarrow> sdp_buf \<Rightarrow> sdp_buf run" where
  "attr_range_loop rec pdu [] buf = Ret buf"
| "attr_range_loop rec pdu (e # es) buf =
     run_bind (as_u32 e) (\<lambda>range.
       let low = ucast (drop_bit 16 range); high = ucast range
       in if low = 0x0000 \<and> high = 0xffff \<and> data_size pdu \<le> buf_size buf
          then run_bind (buf_put buf 0 (buf_used pdu)) (\<lambda>b. Ret (b\<lparr>data_size := data_size pdu\<rparr>))
          else run_bind (append_attrs rec (range_ids low high) buf) (attr_range_loop rec pdu es))"

definition extract_attrs :: "sdp_record option \<Rightarrow> des_elem list \<Rightarrow> byte \<Rightarrow> sdp_buf \<Rightarrow> (nat \<times> sdp_buf) run" where
  "extract_attrs rec seq dt buf =
     (case rec of
        None \<Rightarrow> Ret (SDP_INVALID_RECORD_HANDLE, buf)
      | Some r \<Rightarrow>
          if seq = [] then Ret (0, buf)
          else if dt = SDP_UINT16 then run_bind (attr_id_loop r seq buf) (\<lambda>b. Ret (0, b))
          else if dt = SDP_UINT32 then
            run_bind (sdp_gen_record_pdu r) (\<lambda>pdu.
            run_bind (attr_range_loop r pdu seq buf) (\<lambda>b. Ret (0, b)))
          else Ret (SDP_INVALID_SYNTAX, buf))"

text \<open>\<open>MIN\<close> of a size and an \<open>int\<close> minus \<open>sizeof\<close>, compared as unsigned numbers.\<close>

definition max_size :: "nat \<Rightarrow> int \<Rightarrow> nat" where
  "max_size x y = (if y < 0 \<or> int x < y then x else nat y)"

text \<open>The header of an attribute response is pulled and pushed around its body.\<close>

definition pull_header :: "sdp_buf \<Rightarrow> sdp_buf" where
  "pull_header buf = buf\<lparr>buf_bytes := drop 2 (buf_bytes buf)\<rparr>"

definition push_header :: "sdp_buf \<Rightarrow> sdp_buf \<Rightarrow> sdp_buf" where
  "push_header old buf = buf\<lparr>buf_bytes := take 2 (buf_bytes old) @ buf_bytes buf\<rparr>"

definition no_realloc :: "sdp_buf \<Rightarrow> sdp_buf \<Rightarrow> sdp_buf run" where
  "no_realloc old buf = (if buf_size buf = buf_size old then Ret buf else Fault)"

definition set_byte_count :: "nat \<Rightarrow> sdp_buf \<Rightarrow> sdp_buf run" where
  "set_byte_count cstate_size buf =
     run_bind (buf_put buf 0 (put_be 2 (data_size buf - cstate_size)))
       (\<lambda>b. Ret (b\<lparr>data_size := data_size b + 2\<rparr>))"

text \<open>
  Sending a part of a cached response. Where the client's offset lies behind the cached
  data the difference wraps around.
\<close>

definition chunk_size :: "nat \<Rightarrow> sdp_cont_state \<Rightarrow> sdp_buf \<Rightarrow> nat" where
  "chunk_size mx cstate c =
     (let rest = unat (of_nat (data_size c) - ucast (cs_value cstate) :: u32)
      in if mx < rest then mx else rest)"

definition send_chunk :: "nat \<Rightarrow> sdp_cont_state \<Rightarrow> sdp_buf \<Rightarrow> sdp_buf \<Rightarrow> (sdp_buf \<times> nat) run" where
  "send_chunk sent cstate c buf =
     run_bind (rd_at (buf_bytes c) (int (unat (cs_value cstate))) sent) (\<lambda>bs.
     run_bind (buf_put buf 0 bs) (\<lambda>b1.
       let b2 = b1\<lparr>data_size := data_size b1 + sent\<rparr>;
           cs = cstate\<lparr>cs_value := cs_value cstate + of_nat sent\<rparr>
       in sdp_set_cstate_pdu b2 (if unat (cs_value cs) = data_size c then None else Some cs)))"

text \<open>\<open>service_attr_req\<close> keeps the number of bytes to send in a \<open>short\<close>.\<close>

definition attr_continue :: "nat \<Rightarrow> sdp_cont_state \<Rightarrow> sdpd \<Rightarrow> sdp_buf \<Rightarrow> (nat \<times> sdp_buf \<times> nat) run" where
  "attr_continue mx cstate d buf =
     (case sdp_get_cached_rsp (cstates d) (cs_timestamp cstate) of
        None \<Rightarrow> Ret (SDP_INVALID_CSTATE, buf, 0)
      | Some c \<Rightarrow>
          let sent = sint (of_nat (chunk_size mx cstate c) :: u16)
          in if sent < 0 then Fault
             else run_bind (send_chunk (nat sent) cstate c buf) (\<lambda>(b, n). Ret (0, b, n)))"

text \<open>What both attribute requests do with a complete response.\<close>

definition first_part ::
    "u32 \<Rightarrow> nat \<Rightarrow> cached_rsp list \<Rightarrow> sdp_buf \<Rightarrow> (sdp_buf \<times> nat \<times> cached_rsp list) run" where
  "first_part now mx cs buf =
     run_bind (sdp_cstate_alloc_buf cs buf now) (\<lambda>(ts, cs').
     run_bind (sdp_set_cstate_pdu (buf\<lparr>data_size := mx\<rparr>)
                 (Some \<lparr>cs_timestamp = ts, cs_value = of_nat mx, cs_pad = [0, 0]\<rparr>)) (\<lambda>(b, n). Ret (b, n, cs')))"

definition attr_new ::
    "u32 \<Rightarrow> nat \<Rightarrow> u32 \<Rightarrow> des_elem list \<Rightarrow> byte \<Rightarrow> sdpd \<Rightarrow> sdp_buf \<Rightarrow> (nat \<times> sdp_buf \<times> nat \<times> cached_rsp list) run" where
  "attr_new now mx h seq dt d buf =
     (let st = sdb (srv d) in
      run_bind (sdp_record_find st h) (\<lambda>f.
      run_bind (case f of None \<Rightarrow> Ret None | Some a \<Rightarrow> run_bind (deref st a) (\<lambda>r. Ret (Some r))) (\<lambda>rec.
      run_bind (extract_attrs rec seq dt buf) (\<lambda>(status, b0).
      run_bind (no_realloc buf b0) (\<lambda>b1.
        if mx < data_size b1
        then run_bind (first_part now mx (cstates d) b1) (\<lambda>(b2, n, cs). Ret (status, b2, n, cs))
        else run_bind (if data_size b1 = 0 then sdp_append_to_buf b1 [] else Ret b1) (\<lambda>b2.
             run_bind (sdp_set_cstate_pdu b2 None) (\<lambda>(b3, n). Ret (status, b3, n, cstates d))))))))"

definition service_attr_req :: "nat \<Rightarrow> u32 \<Rightarrow> sdp_req \<Rightarrow> sdp_buf \<Rightarrow> sdpd \<Rightarrow> (nat \<times> sdp_buf \<times> sdpd) run" where
  "service_attr_req fuel now req buf d =
     run_bind (rd 4 (drop 5 (req_buf req))) (\<lambda>hb.
     run_bind (rd 2 (drop 9 (req_buf req))) (\<lambda>mb.
     run_bind (extract_des fuel (drop 11 (req_buf req)) (req_len req - 5) SDP_TYPE_ANY) (\<lambda>r.
       case r of
         None \<Rightarrow> Ret (SDP_INVALID_SYNTAX, buf, d)
       | Some (scanned, seq, dt) \<Rightarrow>
           let pdata = drop (11 + nat scanned) (req_buf req); mlen = scanned + 7
           in run_bind (plen_of req) (\<lambda>plen.
              if plen < mlen then Ret (SDP_INVALID_SYNTAX, buf, d)
              else run_bind (rd 1 pdata) (\<lambda>c.
                if plen \<noteq> mlen + int (unat (hd c)) then Ret (SDP_INVALID_SYNTAX, buf, d)
                else run_bind (sdp_cstate_get pdata) (\<lambda>cstate.
                  let mx = max_size (get_be mb) (req_mtu req - 20)
                  in run_bind (case cstate of
                                 Some cs \<Rightarrow> run_bind (attr_continue mx cs d (pull_header buf))
                                              (\<lambda>(status, b, n). Ret (status, b, n, cstates d))
                               | None \<Rightarrow> attr_new now mx (of_nat (get_be hb)) seq dt d (pull_header buf))
                       (\<lambda>(status, b, n, cs).
                          if status \<noteq> 0 then Ret (status, push_header buf b, d\<lparr>cstates := cs\<rparr>)
                          else run_bind (set_byte_count n (push_header buf b))
                                 (\<lambda>b'. Ret (0, b', d\<lparr>cstates := cs\<rparr>)))))))))"

subsection \<open>Search and attributes in one request\<close>

text \<open>\<open>memset(tmpbuf.data, 0, USHRT_MAX)\<close> after a record was copied.\<close>

definition clear_tmp :: "sdp_buf \<Rightarrow> sdp_buf" where
  "clear_tmp tmp = \<lparr>buf_bytes = replicate USHRT_MAX 0 @ drop USHRT_MAX (buf_bytes tmp), data_size = 0\<rparr>"

fun search_attr_loop ::
    "sdp_db \<Rightarrow> bdaddr \<Rightarrow> des_elem list \<Rightarrow> des_elem list \<Rightarrow> byte \<Rightarrow> addr list \<Rightarrow> nat \<Rightarrow> sdp_buf \<Rightarrow> sdp_buf
       \<Rightarrow> (nat \<times> nat \<times> sdp_buf \<times> sdp_buf) run" where
  "search_attr_loop st device pat seq dt [] n buf tmp = Ret (0, n, buf, tmp)"
| "search_attr_loop st device pat seq dt (a # as) n buf tmp =
     run_bind (deref st a) (\<lambda>rec.
       if rec_matches st device pat rec
       then run_bind (extract_attrs (Some rec) seq dt tmp) (\<lambda>(status, tmp1).
              if status \<noteq> 0 then Ret (status, n + 1, buf, tmp1)
              else if data_size buf + data_size tmp1 < buf_size buf
                   then run_bind (sdp_append_to_buf buf (buf_used tmp1)) (\<lambda>b0.
                        run_bind (no_realloc buf b0) (\<lambda>b1.
                          search_attr_loop st device pat seq dt as (n + 1) b1 (clear_tmp tmp1)))
                   else Ret (0, n + 1, buf, tmp1))
       else search_attr_loop st device pat seq dt as n buf tmp)"

definition search_attr_new ::
    "u32 \<Rightarrow> nat \<Rightarrow> bdaddr \<Rightarrow> des_elem list \<Rightarrow> des_elem list \<Rightarrow> byte \<Rightarrow> sdpd \<Rightarrow> sdp_buf
       \<Rightarrow> (nat \<times> sdp_buf \<times> nat \<times> cached_rsp list) run" where
  "search_attr_new now mx device pat seq dt d buf =
     (let st = sdb (srv d); tmp = \<lparr>buf_bytes = replicate USHRT_MAX 0, data_size = 0\<rparr> in
      run_bind (search_attr_loop st device pat seq dt (sdp_get_record_list st) 0 buf tmp) (\<lambda>(status, n, b1, tmp1).
      run_bind (if mx < data_size b1 then first_part now mx (cstates d) b1
                else run_bind (sdp_set_cstate_pdu b1 None) (\<lambda>(b2, k). Ret (b2, k, cstates d))) (\<lambda>(b2, k, cs).
        if n = 0
        then run_bind (sdp_append_to_buf (b2\<lparr>data_size := 0\<rparr>) (buf_used tmp1)) (\<lambda>b3.
             run_bind (sdp_set_cstate_pdu b3 None) (\<lambda>(b4, _). Ret (status, b4, k, cs)))
        else Ret (status, b2, k, cs))))"

definition search_attr_continue :: "nat \<Rightarrow> sdp_cont_state \<Rightarrow> sdpd \<Rightarrow> sdp_buf \<Rightarrow> (nat \<times> sdp_buf \<times> nat) run" where
  "search_attr_continue mx cstate d buf =
     (case sdp_get_cached_rsp (cstates d) (cs_timestamp cstate) of
        None \<Rightarrow> Ret (SDP_INVALID_CSTATE, buf, 0)
      | Some c \<Rightarrow>
          let sent = unat (of_nat (chunk_size mx cstate c) :: u16)
          in run_bind (send_chunk sent cstate c buf) (\<lambda>(b, n). Ret (0, b, n)))"

definition service_search_attr_req :: "nat \<Rightarrow> u32 \<Rightarrow> sdp_req \<Rightarrow> sdp_buf \<Rightarrow> sdpd \<Rightarrow> (nat \<times> sdp_buf \<times> sdpd) run" where
  "service_search_attr_req fuel now req buf d =
     run_bind (extract_des fuel (drop 5 (req_buf req)) (req_len req - 5) SDP_TYPE_UUID) (\<lambda>r.
       case r of
         None \<Rightarrow> Ret (SDP_INVALID_SYNTAX, buf, d)
       | Some (scanned1, pat, _) \<Rightarrow>
           run_bind (rd 2 (drop (5 + nat scanned1) (req_buf req))) (\<lambda>mb.
           run_bind (extract_des fuel (drop (7 + nat scanned1) (req_buf req)) (req_len req - 5) SDP_TYPE_ANY) (\<lambda>r2.
             case r2 of
               None \<Rightarrow> Ret (SDP_INVALID_SYNTAX, buf, d)
             | Some (scanned2, seq, dt) \<Rightarrow>
                 let pdata = drop (7 + nat scanned1 + nat scanned2) (req_buf req); totscanned = scanned1 + scanned2 + 3
                 in run_bind (plen_of req) (\<lambda>plen.
                    if plen < totscanned then Ret (SDP_INVALID_SYNTAX, buf, d)
                    else run_bind (rd 1 pdata) (\<lambda>c.
                      if plen \<noteq> totscanned + int (unat (hd c)) then Ret (SDP_INVALID_SYNTAX, buf, d)
                      else run_bind (sdp_cstate_get pdata) (\<lambda>cstate.
                        let mx = max_size (get_be mb) (req_mtu req - 16)
                        in run_bind (case cstate of
                                       Some cs \<Rightarrow> run_bind (search_attr_continue mx cs d (pull_header buf))
                                                    (\<lambda>(status, b, n). Ret (status, b, n, cstates d))
                                     | None \<Rightarrow> search_attr_new now mx (req_device req) pat seq dt d (pull_header buf))
                             (\<lambda>(status, b, n, cs).
                                if status \<noteq> 0 then Ret (status, push_header buf b, d\<lparr>cstates := cs\<rparr>)
                                else run_bind (set_byte_count n (push_header buf b))
                                       (\<lambda>b'. Ret (0, b', d\<lparr>cstates := cs\<rparr>)))))))))"

subsection \<open>The dispatcher\<close>

text \<open>The response id and the handler of a request; \<open>None\<close> is a request that is refused.\<close>

definition rsp_id :: "byte \<Rightarrow> byte" where
  "rsp_id pdu_id = (if pdu_id = 0x79 then 0x80 else pdu_id + 1)"

definition run_handler :: "nat \<Rightarrow> u32 \<Rightarrow> sdp_req \<Rightarrow> byte \<Rightarrow> sdp_buf \<Rightarrow> sdpd \<Rightarrow> (int \<times> sdp_buf \<times> sdpd) run" where
  "run_handler fuel now req pdu_id rsp d =
     (let lift = (\<lambda>r. run_bind r (\<lambda>(st, b, d'). Ret (int st, b, d')));
          refuse = Ret (int SDP_INVALID_SYNTAX, rsp, d)
      in if pdu_id = 0x02 then lift (service_search_req fuel now req rsp d)
         else if pdu_id = 0x04 then lift (service_attr_req fuel now req rsp d)
         else if pdu_id = 0x06 then lift (service_search_attr_req fuel now req rsp d)
         else if pdu_id = 0x75 \<and> req_local req then
           run_bind (service_register_req fuel now req rsp (srv d)) (\<lambda>(st, _, b, s). Ret (st, b, d\<lparr>srv := s\<rparr>))
         else if pdu_id = 0x77 \<and> req_local req then
           run_bind (service_update_req fuel now req rsp (srv d)) (\<lambda>(st, b, s). Ret (st, b, d\<lparr>srv := s\<rparr>))
         else if pdu_id = 0x79 \<and> req_local req then
           run_bind (service_remove_req now req rsp (srv d)) (\<lambda>(st, b, s). Ret (st, b, d\<lparr>srv := s\<rparr>))
         else refuse)"

definition process_request :: "nat \<Rightarrow> u32 \<Rightarrow> sdp_req \<Rightarrow> sdpd \<Rightarrow> (byte list \<times> sdpd) run" where
  "process_request fuel now req d =
     (let rsp = \<lparr>buf_bytes = replicate (USHRT_MAX - pdu_hdr_size) 0, data_size = 0\<rparr> in
      run_bind (rd 5 (req_buf req)) (\<lambda>hdr.
      run_bind (if int (get_be (drop 3 hdr)) \<noteq> req_len req - int pdu_hdr_size
                then Ret (int SDP_INVALID_PDU_SIZE, rsp, d)
                else run_handler fuel now req (hd hdr) rsp d) (\<lambda>(status, b, d').
      run_bind (if status \<noteq> 0 then rsp_put b 2 (nat (status mod 65536)) else Ret b) (\<lambda>b'.
        Ret ((if status \<noteq> 0 then 0x01 else rsp_id (hd hdr)) # take 2 (drop 1 hdr)
               @ put_be 2 (data_size b') @ buf_used b', d')))))"

text \<open>Who is at the other end of a socket: \<open>getpeername\<close>, \<open>getsockname\<close> and the L2CAP options.\<close>

datatype peer = Peer_Error | Peer_L2cap bdaddr bdaddr int | Peer_Local

definition handle_request :: "nat \<Rightarrow> u32 \<Rightarrow> peer \<Rightarrow> int \<Rightarrow> byte list \<Rightarrow> sdpd \<Rightarrow> (byte list option \<times> sdpd) run" where
  "handle_request fuel now peer sk data d =
     (let go = (\<lambda>req. run_bind (process_request fuel now req d) (\<lambda>(out, d'). Ret (Some out, d')))
      in case peer of
           Peer_Error \<Rightarrow> Ret (None, d)
         | Peer_L2cap remote device omtu \<Rightarrow>
             go \<lparr>req_device = device, req_bdaddr = remote, req_local = False, req_sock = sk, req_mtu = omtu,
                 req_flags = 0, req_buf = data, req_len = int (length data)\<rparr>
         | Peer_Local \<Rightarrow>
             go \<lparr>req_device = BDADDR_ANY, req_bdaddr = [0, 0, 0, 0xff, 0xff, 0xff], req_local = True, req_sock = sk,
                 req_mtu = 2048, req_flags = 0, req_buf = data, req_len = int (length data)\<rparr>)"

text \<open>
  \<open>io_session_event\<close>: what the channel reports (invalid, closed, or readable with the bytes
  \<open>recv\<close> returned). The result says whether the watch stays.
\<close>

datatype session_event = Sess_Invalid | Sess_Closed | Sess_Data "byte list"

definition io_session_event ::
    "nat \<Rightarrow> u32 \<Rightarrow> peer \<Rightarrow> int \<Rightarrow> session_event \<Rightarrow> sdpd \<Rightarrow> (bool \<times> byte list option \<times> sdpd) run" where
  "io_session_event fuel now peer sk ev d =
     (let close = run_bind (sdp_svcdb_collect_all sk (sdb (srv d)))
                    (\<lambda>db. Ret (False, None, d\<lparr>srv := (srv d)\<lparr>sdb := db\<rparr>\<rparr>))
      in case ev of
           Sess_Invalid \<Rightarrow> Ret (False, None, d)
         | Sess_Closed \<Rightarrow> close
         | Sess_Data data \<Rightarrow>
             if data = [] then close
             else run_bind (handle_request fuel now peer sk data d) (\<lambda>(out, d'). Ret (True, out, d')))"

text \<open>The records \<open>init_server\<close> starts with.\<close>

definition empty_db :: sdp_db where
  "empty_db = \<lparr>rec_heap = Map.empty, next_rec = 0, service_db = [], access_db = [], socket_index = []\<rparr>"

definition empty_server :: sdp_server where
  "empty_server = \<lparr>sdb = empty_db, server = None, service_classes = 0, callback_set = False, notified = [],
     did_vendor = 0, did_product = 0, did_version = 0\<rparr>"

definition init_records :: "u32 \<Rightarrow> sdp_server run" where
  "init_records now = run_bind (register_public_browse_group empty_server) (register_server_service now)"

subsection \<open>Requests from other devices do not change records\<close>

lemma search_new_srv: "search_new now d device pat expected actual buf = Ret (st, b, d') \<Longrightarrow> srv d' = srv d"
  by (auto simp: search_new_def Let_def split: if_splits)

lemma search_continue_srv: "search_continue d cs actual buf = Ret (st, b, d') \<Longrightarrow> srv d' = srv d"
  by (auto simp: search_continue_def Let_def split: if_splits option.splits)

lemma search_req_srv: "service_search_req fuel now req buf d = Ret (st, b, d') \<Longrightarrow> srv d' = srv d"
  by (auto simp: service_search_req_def Let_def dest: search_new_srv search_continue_srv split: if_splits option.splits)

lemma attr_req_srv: "service_attr_req fuel now req buf d = Ret (st, b, d') \<Longrightarrow> srv d' = srv d"
  by (auto simp: service_attr_req_def Let_def split: if_splits option.splits)

lemma search_attr_req_srv: "service_search_attr_req fuel now req buf d = Ret (st, b, d') \<Longrightarrow> srv d' = srv d"
  by (auto simp: service_search_attr_req_def Let_def split: if_splits option.splits)

lemma remote_handler_srv:
  "\<not> req_local req \<Longrightarrow> run_handler fuel now req i rsp d = Ret (st, b, d') \<Longrightarrow> srv d' = srv d"
  by (auto simp: run_handler_def Let_def dest: search_req_srv attr_req_srv search_attr_req_srv split: if_splits)

lemma remote_process_srv:
  "\<not> req_local req \<Longrightarrow> process_request fuel now req d = Ret (out, d') \<Longrightarrow> srv d' = srv d"
  by (auto simp: process_request_def Let_def dest: remote_handler_srv split: if_splits)

lemma remote_request_srv:
  "handle_request fuel now (Peer_L2cap remote device omtu) sk data d = Ret (out, d') \<Longrightarrow> srv d' = srv d"
  by (auto simp: handle_request_def dest: remote_process_srv [rotated])

subsection \<open>Matching\<close>

lemma match_loop_range: "match_loop us target \<in> {0, 1}"
  by (induction us) auto

lemma match_loop_one:
  assumes "record_inv rec" and "\<forall>u \<in> set us. uuid_ok u \<and> u \<noteq> UUID_NONE"
  shows "match_loop us (pattern rec) = 1 \<longleftrightarrow> (\<forall>u \<in> set us. sdp_uuid_to_uuid128 u \<in> set (pattern rec))"
  using assms(2)
proof (induction us)
  case (Cons u us)
  then show ?case using pattern_find [OF assms(1), of u] by simp
qed simp

lemma match_uuid_pos:
  assumes "record_inv rec" and "\<forall>u \<in> set us. uuid_ok u \<and> u \<noteq> UUID_NONE"
  shows "0 < sdp_match_uuid us (pattern rec) \<longleftrightarrow>
    length us \<le> length (pattern rec) \<and> (\<forall>u \<in> set us. sdp_uuid_to_uuid128 u \<in> set (pattern rec))"
  using match_loop_one [OF assms] match_loop_range [of us "pattern rec"] by (auto simp: sdp_match_uuid_def)

subsection \<open>Reading sequences\<close>

text \<open>The encoding of the elements a request can hold.\<close>

fun elem_type :: "des_elem \<Rightarrow> byte" where
  "elem_type (E16 a) = SDP_UINT16"
| "elem_type (E32 r) = SDP_UINT32"
| "elem_type (EUuid u) = uuid_type u"

fun elem_enc :: "des_elem \<Rightarrow> byte list" where
  "elem_enc (E16 a) = SDP_UINT16 # put_be 2 (unat a)"
| "elem_enc (E32 r) = SDP_UINT32 # put_be 4 (unat r)"
| "elem_enc (EUuid u) = uuid_type u # scalar_bytes (uuid_type u) (VUuid u)"

fun elem_ok :: "des_elem \<Rightarrow> bool" where
  "elem_ok (EUuid u) \<longleftrightarrow> uuid_ok u \<and> u \<noteq> UUID_NONE"
| "elem_ok _ \<longleftrightarrow> True"

lemma elem_enc_Cons: "elem_enc e = elem_type e # tl (elem_enc e)"
  by (cases e) simp_all

lemma elem_enc_pos: "1 \<le> length (elem_enc e)"
  by (cases e) simp_all

lemma u16_image: "of_nat (get_be (put_be 2 (unat v))) = (v :: u16)"
proof -
  have "unat v < 256 ^ 2" using unsigned_less [of v] by simp
  then show ?thesis by (simp only: get_be_put_be_id) simp
qed

lemma uuid_extract_enc:
  assumes "uuid_ok u" "u \<noteq> UUID_NONE" "int (length (elem_enc (EUuid u))) \<le> b"
  shows "sdp_uuid_extract_safe (elem_enc (EUuid u) @ rest) b 0 = Ret (Some u, int (length (elem_enc (EUuid u))))"
  using assms
  by (cases u)
    (simp_all add: sdp_uuid_extract_safe_def short_of_def rd_append SDP_IS_UUID_def scalar_bytes_def u16_image handle_image
      sdp_uuid16_create_def sdp_uuid32_create_def sdp_uuid128_create_def)

lemma read_elem_enc:
  assumes "elem_ok e" and "int (length (elem_enc e)) \<le> b"
  shows "read_elem (elem_enc e @ rest) b (elem_type e) = Ret (Some (Some e, int (length (elem_enc e))))"
proof (cases e)
  case (EUuid u)
  then have "uuid_type u \<in> {SDP_UUID16, SDP_UUID32, SDP_UUID128}" using assms(1) by (cases u) auto
  then show ?thesis
    using assms uuid_extract_enc [of u b rest] EUuid by (auto simp: read_elem_def)
qed (use assms in \<open>simp_all add: read_elem_def short_of_def rd_append u16_image handle_image\<close>)

lemma des_loop_enc:
  assumes "es \<noteq> []" and "\<forall>e \<in> set es. elem_ok e \<and> expected_type ex (elem_type e)"
    and "int (length (concat (map elem_enc es))) \<le> b" and "sl + int (length (concat (map elem_enc es))) \<le> len"
    and "length es \<le> k"
  shows "des_loop k (concat (map elem_enc es) @ rest) b sl (sl + int (length (concat (map elem_enc es)))) len ex acc
    = Ret (Some (sl + int (length (concat (map elem_enc es))), acc @ es, elem_type (last es)))"
  using assms
proof (induction es arbitrary: k b sl acc)
  case (Cons e es)
  obtain k' where k: "k = Suc k'" "length es \<le> k'" using Cons.prems(5) by (cases k) auto
  let ?n = "int (length (elem_enc e))" and ?L = "int (length (concat (map elem_enc es)))"
  let ?tl = "concat (map elem_enc es) @ rest"
  have b: "?n + ?L \<le> b" "1 \<le> ?n" using Cons.prems(3) elem_enc_pos [of e] by simp_all
  have r: "read_elem (elem_enc e @ ?tl) b (elem_type e) = Ret (Some (Some e, ?n))"
    using read_elem_enc [of e b ?tl] Cons.prems(2) b by simp
  have h: "rd 1 (elem_enc e @ ?tl) = Ret [elem_type e]"
    by (subst elem_enc_Cons) simp
  have ex: "expected_type ex (elem_type e)" using Cons.prems(2) by simp
  have sh: "\<not> short_of b 1" using b by (simp add: short_of_def)
  show ?case
  proof (cases "es = []")
    case True
    then show ?thesis using r h ex sh by (simp add: k)
  next
    case False
    then have "0 < ?L" using elem_enc_pos [of "hd es"] by (cases es) (auto intro: add_pos_nonneg)
    then obtain L where L: "?L = L" "0 < L" by blast
    have tot: "int (length (concat (map elem_enc (e # es)))) = ?n + L" using L by simp
    have "des_loop k' ?tl (b - ?n) (sl + ?n) (sl + ?n + ?L) len ex (acc @ [e])
        = Ret (Some (sl + ?n + ?L, (acc @ [e]) @ es, elem_type (last es)))"
      using Cons.prems b k(2) by (intro Cons.IH [OF False]) auto
    then have "des_loop k' ?tl (b - ?n) (sl + ?n) (sl + (?n + L)) len ex (acc @ [e])
        = Ret (Some (sl + (?n + L), acc @ e # es, elem_type (last es)))"
      by (simp only: L(1)) (simp add: add.assoc)
    then show ?thesis
      unfolding tot using r h ex sh L(2) False Cons.prems(4) [unfolded tot] by (simp add: k Let_def)
  qed
qed simp

definition des_image :: "byte \<Rightarrow> des_elem list \<Rightarrow> byte list" where
  "des_image t es = t # put_be (len_width t) (length (concat (map elem_enc es))) @ concat (map elem_enc es)"

lemma extract_des_enc:
  assumes "t \<in> {SDP_SEQ8, SDP_SEQ16}" and "es \<noteq> []" and "\<forall>e \<in> set es. elem_ok e \<and> expected_type ex (elem_type e)"
    and "length (concat (map elem_enc es)) < 256 ^ len_width t" and "int (length (des_image t es)) \<le> len" and "length es \<le> k"
  shows "extract_des k (des_image t es @ rest) len ex = Ret (Some (int (length (des_image t es)), es, elem_type (last es)))"
proof -
  let ?L = "length (concat (map elem_enc es))"
  have t: "is_seq_alt t" "1 \<le> len_width t" "len_width t \<le> 2" using assms(1) by (auto simp: is_seq_alt_def len_width_def)
  have "?L < 2 ^ 31"
    using assms(1,4) by (auto simp: len_width_def)
  then have q: "sdp_extract_seqtype_safe (des_image t es @ rest) len 0 0 = Ret (1 + int (len_width t), t, int ?L)"
    using seqtype_enc [of t ?L len "concat (map elem_enc es) @ rest" 0 0] t assms(4,5)
    by (simp add: des_image_def)
  have d: "drop (nat (1 + int (len_width t))) (des_image t es @ rest) = concat (map elem_enc es) @ rest"
    by (simp add: des_image_def nat_add_distrib)
  have "des_loop k (concat (map elem_enc es) @ rest) (len - (1 + int (len_width t))) 0 (0 + int ?L) len ex []
      = Ret (Some (0 + int ?L, [] @ es, elem_type (last es)))"
    using assms by (intro des_loop_enc) (simp_all add: des_image_def)
  then show ?thesis
    using assms(1) q d by (auto simp: extract_des_def des_image_def)
qed

subsection \<open>What a search returns\<close>

text \<open>The handles a search is about, in the order of the repository.\<close>

definition matching :: "sdp_db \<Rightarrow> bdaddr \<Rightarrow> des_elem list \<Rightarrow> addr list \<Rightarrow> u32 list" where
  "matching st device pat as =
     map (rhandle st) (filter (\<lambda>a. rec_matches st device pat (the (rec_heap st a))) as)"

definition handles_enc :: "u32 list \<Rightarrow> byte list" where
  "handles_enc hs = concat (map (\<lambda>h. put_be 4 (unat h)) hs)"

lemma length_handles_enc: "length (handles_enc hs) = 4 * length hs"
  by (induction hs) (simp_all add: handles_enc_def)

lemma buf_put_at:
  "length pre = off \<Longrightarrow> length bs \<le> length r \<Longrightarrow>
   buf_put \<lparr>buf_bytes = pre @ r, data_size = k\<rparr> off bs = Ret \<lparr>buf_bytes = pre @ bs @ drop (length bs) r, data_size = k\<rparr>"
  by (simp add: buf_put_def)

lemma search_loop_effect:
  assumes "\<forall>a \<in> set as. rec_heap st a \<noteq> None" and "length pre = 4 + 4 * n" and "n \<le> expected"
    and "hs = take (expected - n) (matching st device pat as)" and "4 * length hs \<le> length r"
  shows "search_loop st device pat as expected n \<lparr>buf_bytes = pre @ r, data_size = k\<rparr>
    = Ret (n + length hs, \<lparr>buf_bytes = pre @ handles_enc hs @ drop (4 * length hs) r, data_size = k\<rparr>)"
  using assms
proof (induction as arbitrary: pre n hs r)
  case Nil
  then show ?case by (simp add: matching_def handles_enc_def)
next
  case (Cons a as)
  obtain rec where rec: "rec_heap st a = Some rec" using Cons.prems(1) by auto
  have live: "\<forall>a \<in> set as. rec_heap st a \<noteq> None" using Cons.prems(1) by simp
  show ?case
  proof (cases "expected \<le> n")
    case True
    then show ?thesis using Cons.prems by (simp add: handles_enc_def)
  next
    case False
    show ?thesis
    proof (cases "rec_matches st device pat rec")
      case False
      then have "matching st device pat (a # as) = matching st device pat as" using rec by (simp add: matching_def)
      with False \<open>\<not> expected \<le> n\<close> rec show ?thesis
        using Cons.IH [OF live Cons.prems(2,3), of hs r] Cons.prems(4,5) by (simp add: deref_def)
    next
      case True
      let ?h = "put_be 4 (unat (handle rec))"
      define hs' where "hs' = take (expected - (n + 1)) (matching st device pat as)"
      have "expected - n = Suc (expected - (n + 1))" using False by simp
      then have hs: "hs = handle rec # hs'" "hs' = take (expected - (n + 1)) (matching st device pat as)"
        using Cons.prems(4) True rec by (simp_all add: matching_def rhandle_def hs'_def)
      have l: "4 \<le> length r" "4 * length hs' \<le> length (drop 4 r)" using Cons.prems(5) hs(1) by auto
      have p: "buf_put \<lparr>buf_bytes = pre @ r, data_size = k\<rparr> (4 + 4 * n) ?h
          = Ret \<lparr>buf_bytes = (pre @ ?h) @ drop 4 r, data_size = k\<rparr>"
        using buf_put_at [OF Cons.prems(2), of ?h r k] l by simp
      have "search_loop st device pat as expected (n + 1) \<lparr>buf_bytes = (pre @ ?h) @ drop 4 r, data_size = k\<rparr>
          = Ret (n + 1 + length hs', \<lparr>buf_bytes = (pre @ ?h) @ handles_enc hs' @ drop (4 * length hs') (drop 4 r), data_size = k\<rparr>)"
        using Cons.prems(2) False hs(2) l by (intro Cons.IH [OF live]) auto
      then show ?thesis
        using True False rec p hs(1) by (simp add: deref_def handles_enc_def add.commute)
    qed
  qed
qed

text \<open>A search request as a client sends it.\<close>

definition search_pkt :: "byte list \<Rightarrow> byte \<Rightarrow> des_elem list \<Rightarrow> nat \<Rightarrow> byte list \<Rightarrow> byte list" where
  "search_pkt tid t pat expected cont =
     (let body = des_image t pat @ put_be 2 expected @ cont
      in 0x02 # tid @ put_be 2 (length body) @ body)"

text \<open>The number of handles a response can carry.\<close>

definition search_room :: "nat \<Rightarrow> int \<Rightarrow> nat" where
  "search_room expected mtu =
     nat ((if int expected < (mtu - 18) div 4 then int expected else (mtu - 18) div 4) mod 65536)"

lemma search_req_parse:
  assumes "t \<in> {SDP_SEQ8, SDP_SEQ16}" and "pat \<noteq> []" and "\<forall>e \<in> set pat. elem_ok e \<and> expected_type SDP_TYPE_UUID (elem_type e)"
    and "length (concat (map elem_enc pat)) < 256 ^ len_width t" and "length pat \<le> fuel"
    and "length tid = 2" and "expected < 65536" and "length (des_image t pat @ put_be 2 expected @ cont) < 65536"
    and "cont = of_nat (length cs) # cs" and "length cs < 256"
    and "req_buf req = search_pkt tid t pat expected cont" and "req_len req = int (length (req_buf req))"
  shows "service_search_req fuel now req buf d =
     run_bind (sdp_cstate_get cont) (\<lambda>cstate.
     run_bind (buf_put buf 0 [0, 0, 0, 0]) (\<lambda>b.
       let b1 = b\<lparr>data_size := data_size b + 4\<rparr>; actual = search_room expected (req_mtu req)
       in case cstate of
            None \<Rightarrow> search_new now d (req_device req) pat expected actual b1
          | Some c \<Rightarrow> search_continue d c actual b1))"
proof -
  let ?i = "des_image t pat" and ?body = "des_image t pat @ put_be 2 expected @ cont"
  have rb: "req_buf req = 0x02 # tid @ put_be 2 (length ?body) @ ?body"
    using assms(11) by (simp add: search_pkt_def Let_def)
  obtain x y where tid: "tid = [x, y]" using assms(6) by (cases tid; cases "tl tid") auto
  have d5: "drop 5 (req_buf req) = ?i @ put_be 2 expected @ cont" and d3: "drop 3 (req_buf req) = put_be 2 (length ?body) @ ?body"
    unfolding rb tid by (simp_all add: numeral_3_eq_3 put_be_small)
  have len: "req_len req - 5 = int (length ?body)" using assms(12) rb tid by simp
  have e: "extract_des fuel (drop 5 (req_buf req)) (req_len req - 5) SDP_TYPE_UUID
      = Ret (Some (int (length ?i), pat, elem_type (last pat)))"
    unfolding d5 len using assms(1-5) by (intro extract_des_enc) simp_all
  have p: "plen_of req = Ret (int (length ?body))"
    unfolding plen_of_def d3 using assms(8) by (simp add: rd_append get_be_put_be_id)
  have "drop (5 + length ?i) (req_buf req) = drop (length ?i) (drop 5 (req_buf req))" by (simp add: add.commute)
  then have pd: "drop (5 + length ?i) (req_buf req) = put_be 2 expected @ cont" unfolding d5 by simp
  have pd2: "drop 2 (drop (5 + length ?i) (req_buf req)) = cont" unfolding pd by simp
  have u: "unat (of_nat (length cs) :: byte) = length cs" using assms(10) by (simp add: unat_of_nat)
  have x: "get_be (put_be 2 expected) = expected" using assms(7) by (simp add: get_be_put_be_id)
  have g: "rd 1 (drop 2 (put_be 2 expected @ cont)) = Ret [of_nat (length cs)]" "rd 2 (put_be 2 expected @ cont) = Ret (put_be 2 expected)"
    by (simp_all add: assms(9) rd_append)
  show ?thesis
    unfolding service_search_req_def e run_bind.simps option.case prod.case nat_int Let_def p pd g x search_room_def
    using u by (simp add: assms(9))
qed

definition search_rsp :: "nat \<Rightarrow> u32 list \<Rightarrow> byte list \<Rightarrow> byte list" where
  "search_rsp n hs cont = put_be 2 n @ put_be 2 (length hs) @ handles_enc hs @ cont"

lemma set_cstate_app:
  assumes "length pre = k" and "bs = (case c of Some c \<Rightarrow> 8 # cstate_bytes c | None \<Rightarrow> [0])" and "length bs \<le> length r"
  shows "sdp_set_cstate_pdu \<lparr>buf_bytes = pre @ r, data_size = k\<rparr> c
     = Ret (\<lparr>buf_bytes = pre @ bs @ drop (length bs) r, data_size = k + length bs\<rparr>, length bs)"
  using assms buf_put_at [of pre k bs r k] by (simp add: sdp_set_cstate_pdu_def Let_def)

lemma handles_enc_take: "handles_enc hs = handles_enc (take m hs) @ handles_enc (drop m hs)"
  by (simp add: handles_enc_def flip: concat_append map_append)

lemma search_new_effect:
  assumes "repo_inv (sdb (srv d))" and "length r0 = 4" and "hs = take expected (matching (sdb (srv d)) device pat (service_db (sdb (srv d))))"
    and "4 * length hs + 9 \<le> length r" and "0 < now" and "actual < 65536"
  shows "\<exists>b d'. search_new now d device pat expected actual \<lparr>buf_bytes = r0 @ r, data_size = 4\<rparr> = Ret (0, b, d') \<and> srv d' = srv d \<and>
     (if length hs \<le> actual then buf_used b = search_rsp (length hs) hs [0] \<and> d' = d
      else buf_used b = search_rsp (length hs) (take actual hs)
             (8 # cstate_bytes \<lparr>cs_timestamp = now, cs_value = of_nat actual, cs_pad = [0, 0]\<rparr>)
         \<and> cstates d' = \<lparr>cr_timestamp = now,
              cr_buf = \<lparr>buf_bytes = search_rsp (length hs) hs [], data_size = 4 + 4 * length hs\<rparr>\<rparr> # cstates d)"
proof -
  let ?st = "sdb (srv d)" and ?n = "length hs"
  let ?r = "drop (4 * length hs) r" and ?hdr = "put_be 2 ?n @ put_be 2 ?n"
  have live: "\<forall>a \<in> set (service_db ?st). rec_heap ?st a \<noteq> None" using assms(1) by (simp add: repo_inv_def)
  have l: "search_loop ?st device pat (service_db ?st) expected 0 \<lparr>buf_bytes = r0 @ r, data_size = 4\<rparr>
      = Ret (?n, \<lparr>buf_bytes = r0 @ handles_enc hs @ ?r, data_size = 4\<rparr>)"
    using search_loop_effect [OF live, of r0 0 expected hs device pat r 4] assms(2-4) by simp
  have p: "buf_put \<lparr>buf_bytes = r0 @ handles_enc hs @ ?r, data_size = 4 + 4 * ?n\<rparr> 0 ?hdr
      = Ret \<lparr>buf_bytes = ?hdr @ handles_enc hs @ ?r, data_size = 4 + 4 * ?n\<rparr>"
    using assms(2) by (simp add: buf_put_def)
  show ?thesis
  proof (cases "?n \<le> actual")
    case True
    have c: "sdp_set_cstate_pdu \<lparr>buf_bytes = (?hdr @ handles_enc hs) @ ?r, data_size = 4 + 4 * ?n\<rparr> None
       = Ret (\<lparr>buf_bytes = (?hdr @ handles_enc hs) @ [0] @ drop 1 ?r, data_size = 4 + 4 * ?n + 1\<rparr>, 1)"
      using assms(4) set_cstate_app [of "?hdr @ handles_enc hs" "4 + 4 * ?n" "[0]" None ?r]
      by (simp add: length_handles_enc)
    have "search_new now d device pat expected actual \<lparr>buf_bytes = r0 @ r, data_size = 4\<rparr>
        = Ret (0, \<lparr>buf_bytes = (?hdr @ handles_enc hs) @ [0] @ drop 1 ?r, data_size = 4 + 4 * ?n + 1\<rparr>, d)"
      using True l p c by (simp add: search_new_def sdp_get_record_list_def)
    then show ?thesis using True by (simp add: buf_used_def search_rsp_def length_handles_enc)
  next
    case False
    let ?cs = "\<lparr>cs_timestamp = now, cs_value = of_nat actual, cs_pad = [0, 0]\<rparr>"
    let ?h1 = "handles_enc (take actual hs)" and ?h2 = "handles_enc (drop actual hs)" and ?bs = "8 # cstate_bytes ?cs"
    have a: "sdp_cstate_alloc_buf (cstates d) \<lparr>buf_bytes = ?hdr @ handles_enc hs @ ?r, data_size = 4 + 4 * ?n\<rparr> now
      = Ret (now, \<lparr>cr_timestamp = now, cr_buf = \<lparr>buf_bytes = search_rsp ?n hs [], data_size = 4 + 4 * ?n\<rparr>\<rparr> # cstates d)"
      by (simp add: sdp_cstate_alloc_buf_def buf_used_def search_rsp_def length_handles_enc)
    have bl: "length ?bs = 9" by (simp add: cstate_bytes_def)
    have q: "buf_put \<lparr>buf_bytes = ?hdr @ handles_enc hs @ ?r, data_size = 4 + 4 * actual\<rparr> 0 (put_be 2 ?n @ put_be 2 actual)
       = Ret \<lparr>buf_bytes = (put_be 2 ?n @ put_be 2 actual @ ?h1) @ ?h2 @ ?r, data_size = 4 + 4 * actual\<rparr>"
      using handles_enc_take [of hs actual] by (simp add: buf_put_def)
    have "sdp_set_cstate_pdu \<lparr>buf_bytes = (put_be 2 ?n @ put_be 2 actual @ ?h1) @ ?h2 @ ?r, data_size = 4 + 4 * actual\<rparr> (Some ?cs)
       = Ret (\<lparr>buf_bytes = (put_be 2 ?n @ put_be 2 actual @ ?h1) @ ?bs @ drop (length ?bs) (?h2 @ ?r), data_size = 4 + 4 * actual + length ?bs\<rparr>, length ?bs)"
      using False assms(4) bl by (intro set_cstate_app) (simp_all add: length_handles_enc)
    moreover have "nat (int actual mod 65536) = actual" using assms(6) by simp
    ultimately have "search_new now d device pat expected actual \<lparr>buf_bytes = r0 @ r, data_size = 4\<rparr>
        = Ret (0, \<lparr>buf_bytes = (put_be 2 ?n @ put_be 2 actual @ ?h1) @ ?bs @ drop (length ?bs) (?h2 @ ?r), data_size = 4 + 4 * actual + length ?bs\<rparr>,
            d\<lparr>cstates := \<lparr>cr_timestamp = now, cr_buf = \<lparr>buf_bytes = search_rsp ?n hs [], data_size = 4 + 4 * ?n\<rparr>\<rparr> # cstates d\<rparr>)"
      using False l p a q assms(5)
      by (simp add: search_new_def sdp_get_record_list_def search_counts_def Let_def del: append_assoc)
    then show ?thesis
      using False bl by (simp add: buf_used_def search_rsp_def length_handles_enc min_def)
  qed
qed

subsection \<open>Continuation\<close>










lemma buf_put_start: "length bs \<le> buf_size buf \<Longrightarrow> data_size buf = k \<Longrightarrow>
   buf_put buf 0 bs = Ret \<lparr>buf_bytes = bs @ drop (length bs) (buf_bytes buf), data_size = k\<rparr>"
  by (cases buf) (simp add: buf_put_def)

subsection \<open>Properties\<close>



text \<open>
  C19: a service search answers with the handles of exactly those records, in the order of
  the repository and up to the number asked for, whose pattern has every UUID of the
  request and that the connection may access. If they fit the packet, all are sent with an
  empty continuation state; if not, as many as fit are sent with the total count and a
  state to continue from, and the complete response is cached.
\<close>

theorem search_lists_matching:
  assumes "repo_inv (sdb (srv d))" and "t \<in> {SDP_SEQ8, SDP_SEQ16}" and "pat \<noteq> []"
    and "\<forall>e \<in> set pat. elem_ok e \<and> expected_type SDP_TYPE_UUID (elem_type e)"
    and "length (concat (map elem_enc pat)) < 256 ^ len_width t" and "length pat \<le> fuel"
    and "length tid = 2" and "expected < 65536" and "length (des_image t pat) < 65000"
    and "req_buf req = search_pkt tid t pat expected [0]" and "req_len req = int (length (req_buf req))"
    and "hs = take expected (matching (sdb (srv d)) (req_device req) pat (service_db (sdb (srv d))))"
    and "4 * length hs + 13 \<le> buf_size buf" and "data_size buf = 0" and "0 < now"
  shows "\<exists>b d'. service_search_req fuel now req buf d = Ret (0, b, d') \<and> srv d' = srv d \<and>
     (let room = search_room expected (req_mtu req)
      in if length hs \<le> room then buf_used b = search_rsp (length hs) hs [0] \<and> d' = d
         else buf_used b = search_rsp (length hs) (take room hs)
                (8 # cstate_bytes \<lparr>cs_timestamp = now, cs_value = of_nat room, cs_pad = [0, 0]\<rparr>)
            \<and> sdp_get_cached_rsp (cstates d') now
                = Some \<lparr>buf_bytes = search_rsp (length hs) hs [], data_size = 4 + 4 * length hs\<rparr>)"
proof -
  let ?room = "search_room expected (req_mtu req)"
  have l4: "length [0, 0, 0, 0 :: byte] = 4" by simp
  have rl: "?room < 65536" by (simp add: search_room_def)
  define r where "r = drop (length [0, 0, 0, 0 :: byte]) (buf_bytes buf)"
  have lr: "4 * length hs + 9 \<le> length r" using assms(13) by (simp add: r_def)
  have z: "buf_put buf 0 [0, 0, 0, 0] = Ret \<lparr>buf_bytes = [0, 0, 0, 0] @ r, data_size = 0\<rparr>"
    unfolding r_def using assms(13) by (intro buf_put_start [OF _ assms(14)]) simp
  have c1: "length (des_image t pat @ put_be 2 expected @ [0]) < 65536" using assms(9) by simp
  have c2: "[0] = of_nat (length ([] :: byte list)) # ([] :: byte list)" and c3: "length ([] :: byte list) < 256" by simp_all
  have c: "sdp_cstate_get [0] = Ret None" by (simp add: sdp_cstate_get_def)
  have q: "service_search_req fuel now req buf d = search_new now d (req_device req) pat expected ?room \<lparr>buf_bytes = [0, 0, 0, 0] @ r, data_size = 4\<rparr>"
    unfolding search_req_parse [OF assms(2-8) c1 c2 c3 assms(10,11)] c run_bind.simps z Let_def option.case by simp
  obtain b d' where e: "search_new now d (req_device req) pat expected ?room \<lparr>buf_bytes = [0, 0, 0, 0] @ r, data_size = 4\<rparr> = Ret (0, b, d')"
      "srv d' = srv d" "length hs \<le> ?room \<Longrightarrow> buf_used b = search_rsp (length hs) hs [0] \<and> d' = d"
      "\<not> length hs \<le> ?room \<Longrightarrow> buf_used b = search_rsp (length hs) (take ?room hs)
             (8 # cstate_bytes \<lparr>cs_timestamp = now, cs_value = of_nat ?room, cs_pad = [0, 0]\<rparr>)
         \<and> cstates d' = \<lparr>cr_timestamp = now,
              cr_buf = \<lparr>buf_bytes = search_rsp (length hs) hs [], data_size = 4 + 4 * length hs\<rparr>\<rparr> # cstates d"
    using search_new_effect [OF assms(1) l4 assms(12) lr assms(15) rl] by (auto split: if_splits)
  show ?thesis
    unfolding q Let_def by (intro exI [of _ b] exI [of _ d']) (use e in simp)
qed

lemma ex_search_ok:
  "\<forall>e \<in> set [EUuid (UUID16 0x1002)]. elem_ok e \<and> expected_type SDP_TYPE_UUID (elem_type e)"
  "length (concat (map elem_enc [EUuid (UUID16 0x1002)])) < 256 ^ len_width SDP_SEQ8"
  "length (des_image SDP_SEQ8 [EUuid (UUID16 0x1002)]) < 65000"
  by (simp_all add: expected_type_def len_width_def scalar_bytes_def des_image_def)

lemma ex_search_none:
  "matching (sdb ex_srv) dev [EUuid (UUID16 0x1002)] (service_db (sdb ex_srv)) = []"
  by (simp add: matching_def ex_srv_def rec_matches_def sdp_match_uuid_def pattern_uuids_def sdp_record_alloc_def map_filter_def)

theorem search_lists_matching_witness:
  "\<exists>b d'. service_search_req 9 5 (ex_req (search_pkt [0, 1] SDP_SEQ8 [EUuid (UUID16 0x1002)] 10 [0]))
      \<lparr>buf_bytes = replicate 100 0, data_size = 0\<rparr> \<lparr>srv = ex_srv, cstates = []\<rparr> = Ret (0, b, d')
    \<and> buf_used b = search_rsp 0 [] [0]"
proof -
  let ?p = "search_pkt [0, 1] SDP_SEQ8 [EUuid (UUID16 0x1002)] 10 [0]" and ?d = "\<lparr>srv = ex_srv, cstates = []\<rparr>"
  let ?b = "\<lparr>buf_bytes = replicate 100 0, data_size = 0\<rparr> :: sdp_buf"
  have inv: "repo_inv (sdb (srv ?d))" using ex_srv_inv by (simp add: srv_inv_def db_inv_def)
  have rb: "req_buf (ex_req ?p) = ?p" "req_len (ex_req ?p) = int (length (req_buf (ex_req ?p)))" by (simp_all add: ex_req_def)
  have m: "[] = take 10 (matching (sdb (srv ?d)) (req_device (ex_req ?p)) [EUuid (UUID16 0x1002)] (service_db (sdb (srv ?d))))"
    using ex_search_none by simp
  note search_lists_matching [OF inv _ _ ex_search_ok(1,2) _ _ _ ex_search_ok(3) rb m, of 9 ?b 5]
  then show ?thesis by (simp add: Let_def) blast
qed

text \<open>
  C20: a request over a Bluetooth link never changes the records of the server, its own
  record or the index of sockets, whatever bytes it consists of: registration, update and
  removal are refused unless the client is local.
\<close>

theorem remote_requests_keep_records:
  assumes "handle_request fuel now (Peer_L2cap remote device omtu) sk data d = Ret (out, d')"
  shows "srv d' = srv d"
  using assms by (rule remote_request_srv)

theorem remote_requests_keep_records_witness:
  "\<exists>out d'. handle_request 9 0 (Peer_L2cap BDADDR_ANY BDADDR_ANY 48) 3 ([0x79, 0, 1] @ put_be 2 4 @ put_be 4 0x10000)
       \<lparr>srv = ex_srv, cstates = []\<rparr> = Ret (out, d') \<and> srv d' = ex_srv"
proof -
  have "\<exists>out d'. handle_request 9 0 (Peer_L2cap BDADDR_ANY BDADDR_ANY 48) 3 ([0x79, 0, 1] @ put_be 2 4 @ put_be 4 0x10000)
       \<lparr>srv = ex_srv, cstates = []\<rparr> = Ret (out, d')"
    by (simp add: handle_request_def process_request_def run_handler_def Let_def rd_def rsp_put_def buf_put_def put_be_small)
  with remote_requests_keep_records show ?thesis by fastforce
qed

text \<open>
  C26: a record matches a search if its pattern holds every UUID searched for, in whatever
  width they were sent, and is at least as long as the search.
\<close>

theorem match_uuid_spec:
  assumes "record_inv rec" and "\<forall>u \<in> set search. uuid_ok u \<and> u \<noteq> UUID_NONE"
  shows "0 < sdp_match_uuid search (pattern rec) \<longleftrightarrow>
    length search \<le> length (pattern rec) \<and> (\<forall>u \<in> set search. sdp_uuid_to_uuid128 u \<in> set (pattern rec))"
  using match_uuid_pos [OF assms] .

theorem match_uuid_spec_witness:
  "0 < sdp_match_uuid [UUID32 0x1002] (pattern (sdp_pattern_add_uuid sdp_record_alloc (UUID16 0x1002)))"
proof -
  have inv: "record_inv (sdp_pattern_add_uuid sdp_record_alloc (UUID16 0x1002))"
    by (intro pattern_add_inv record_inv_alloc) simp_all
  have p: "pattern (sdp_pattern_add_uuid sdp_record_alloc (UUID16 0x1002)) = [sdp_uuid_to_uuid128 (UUID16 0x1002)]"
    by (simp add: sdp_pattern_add_uuid_def sdp_record_alloc_def Let_def del: sdp_uuid_to_uuid128.simps)
  have "sdp_uuid_to_uuid128 (UUID32 0x1002) = sdp_uuid_to_uuid128 (UUID16 0x1002)"
    by (simp add: uuid16_to_uuid128_bytes uuid32_to_uuid128_bytes put_be_4_small
        del: sdp_uuid16_to_uuid128.simps sdp_uuid32_to_uuid128.simps)
  then show ?thesis using match_uuid_spec [OF inv, of "[UUID32 0x1002]"] p by (simp del: sdp_uuid_to_uuid128.simps)
qed





text \<open>
  Cached responses are told apart by the second they were made in: when two responses
  are cached in the same second, a client that continues the first one is sent the
  contents of the second.
\<close>

theorem same_second_responses_collide:
  assumes "sdp_cstate_alloc_buf cs b1 now = Ret (id1, cs1)" and "sdp_cstate_alloc_buf cs1 b2 now = Ret (id2, cs2)"
  shows "id1 = id2 \<and> sdp_get_cached_rsp cs1 id1 = Some \<lparr>buf_bytes = buf_used b1, data_size = data_size b1\<rparr>
    \<and> sdp_get_cached_rsp cs2 id1 = Some \<lparr>buf_bytes = buf_used b2, data_size = data_size b2\<rparr>"
  using assms by (auto simp: sdp_cstate_alloc_buf_def split: if_splits)

theorem same_second_responses_collide_witness:
  "\<exists>cs1 cs2. sdp_cstate_alloc_buf [] \<lparr>buf_bytes = [1], data_size = 1\<rparr> 9 = Ret (9, cs1)
     \<and> sdp_cstate_alloc_buf cs1 \<lparr>buf_bytes = [2], data_size = 1\<rparr> 9 = Ret (9, cs2)
     \<and> sdp_get_cached_rsp cs2 9 = Some \<lparr>buf_bytes = [2], data_size = 1\<rparr>"
proof -
  obtain cs1 where 1: "sdp_cstate_alloc_buf [] \<lparr>buf_bytes = [1], data_size = 1\<rparr> 9 = Ret (9, cs1)"
    by (simp add: sdp_cstate_alloc_buf_def)
  obtain cs2 where 2: "sdp_cstate_alloc_buf cs1 \<lparr>buf_bytes = [2], data_size = 1\<rparr> 9 = Ret (9, cs2)"
    by (simp add: sdp_cstate_alloc_buf_def)
  show ?thesis using same_second_responses_collide [OF 1 2] 1 2 by (auto simp: buf_used_def)
qed

text \<open>
  C33: a search request whose continuation state is shorter than the eight bytes of
  \<open>sdp_cont_state_t\<close> passes the length checks, and the server copies eight bytes all the
  same, from behind the end of the request.
\<close>

theorem short_continuation_state_overread:
  assumes "t \<in> {SDP_SEQ8, SDP_SEQ16}" and "pat \<noteq> []"
    and "\<forall>e \<in> set pat. elem_ok e \<and> expected_type SDP_TYPE_UUID (elem_type e)"
    and "length (concat (map elem_enc pat)) < 256 ^ len_width t" and "length pat \<le> fuel"
    and "length tid = 2" and "expected < 65536" and "length (des_image t pat) < 65000"
    and "0 < length cs" and "length cs < 8"
    and "req_buf req = search_pkt tid t pat expected (of_nat (length cs) # cs)"
    and "req_len req = int (length (req_buf req))"
  shows "service_search_req fuel now req buf d = Fault"
proof -
  let ?cont = "(of_nat (length cs) :: byte) # cs"
  have c1: "length (des_image t pat @ put_be 2 expected @ ?cont) < 65536" using assms(8,10) by simp
  have c3: "length cs < 256" using assms(10) by simp
  have "unat (of_nat (length cs) :: byte) = length cs" using c3 by (simp add: unat_of_nat)
  then have nz: "(of_nat (length cs) :: byte) \<noteq> 0" using assms(9) by (metis less_irrefl unat_0)
  have "sdp_cstate_get ?cont = Fault"
    using nz assms(10) by (simp add: sdp_cstate_get_def rd_def)
  then show ?thesis
    unfolding search_req_parse [OF assms(1-7) c1 refl c3 assms(11,12)] by simp
qed

theorem short_continuation_state_overread_witness:
  "service_search_req 9 5 (ex_req (search_pkt [0, 1] SDP_SEQ8 [EUuid (UUID16 0x1002)] 10 [1, 0])) ex_rsp \<lparr>srv = ex_srv, cstates = []\<rparr> = Fault"
proof -
  have c: "[1, 0] = (of_nat (length [0 :: byte]) :: byte) # [0]" by simp
  show ?thesis
    unfolding c
    by (rule short_continuation_state_overread [OF _ _ ex_search_ok(1,2) _ _ _ ex_search_ok(3),
          where tid = "[0, 1]" and expected = 10 and cs = "[0]"]) (simp_all add: ex_req_def)
qed



end
