(* ===== verification/SDP_Sessions.thy ===== *)
theory SDP_Sessions
  imports SDP_Request
begin

section \<open>Sessions of the SDP server\<close>

text \<open>
  The server as a whole: events on its sockets as a step relation on the state of
  \<open>utils/sdpd\<close>, with the invariant that the repository, the access list and the index of
  records by socket agree, that no pointer in them dangles, and that the server's own record
  belongs to no session. The three requests of local clients keep it under the conditions of
  \<open>tame\<close>, which are needed: the theorem at the end shows what an update that names another
  record does.
\<close>


subsection \<open>Parsing keeps the handle of the record\<close>

lemma add_uuids_handle [simp]: "map_option handle (add_uuids us rec) = map_option handle rec"
  by (cases rec) (simp_all add: add_uuids_def)

lemma extract_uuid_handle: "extract_uuid p b l rec = Ret (e, n, rec') \<Longrightarrow> map_option handle rec' = map_option handle rec"
  by (auto simp: extract_uuid_def split: option.splits)

lemma extract_keeps_handle:
  "sdp_extract_attr_safe k p b sz rec = Ret (e, n, rec') \<Longrightarrow> map_option handle rec' = map_option handle rec"
  "extract_seq k p b rec = Ret (e, n, rec') \<Longrightarrow> map_option handle rec' = map_option handle rec"
  "seq_loop k p b sl m ds rec = Ret (ds', n, rec') \<Longrightarrow> map_option handle rec' = map_option handle rec"
proof (induction k p b sz rec and k p b rec and k p b sl m ds rec arbitrary: e n rec' and e n rec' and ds' n rec'
    rule: sdp_extract_attr_safe_extract_seq_seq_loop.induct)
  case (2 k p b sz rec)
  show ?case
  proof (cases "short_of b 1")
    case True
    then show ?thesis using "2.prems" by (simp add: sdp_extract_attr_safe.simps(2))
  next
    case False
    then obtain h where h: "rd 1 p = Ret h" using "2.prems" by (auto simp: sdp_extract_attr_safe.simps(2))
    show ?thesis
      using "2.prems" "2.IH" [OF False h] False h extract_uuid_handle [of p b 0 rec]
      by (cases "attr_kind (hd h)") (auto simp: sdp_extract_attr_safe.simps(2))
  qed
next
  case (4 k p b rec)
  then show ?case by (auto split: if_splits)
next
  case (6 k p b sl n ds rec)
  then show ?case by (auto split: if_splits option.splits)
qed simp_all

lemma server_loop_keeps_handle:
  "server_extract_loop k p b sl ex ok r = Ret (ok', r') \<Longrightarrow> handle r' = handle r"
proof (induction k arbitrary: p b ex ok r)
  case (Suc k)
  have the: "handle (the rec') = handle r" if "sdp_extract_attr_safe k q c 0 (Some r) = Ret (e, n, rec')" for q c e n rec'
    using extract_keeps_handle(1) [OF that] by (cases rec') auto
  show ?case
  proof (cases "ex < sl \<and> \<not> short_of b 3")
    case False
    then show ?thesis using Suc.prems by (auto split: if_splits)
  next
    case True
    then obtain a d n rec' where x: "rd 2 (drop 1 p) = Ret a" "sdp_extract_attr_safe k (drop 3 p) (b - 3) 0 (Some r) = Ret (d, n, rec')"
      using Suc.prems by auto
    show ?thesis
      using Suc.prems True x the [OF x(2)] Suc.IH by (cases d) auto
  qed
qed simp

subsection \<open>Which record a registration goes to\<close>

text \<open>The handle at the front of the attribute list of a request, if there is one.\<close>

definition given_handle :: "byte list \<Rightarrow> int \<Rightarrow> u32 option" where
  "given_handle buf bufsize =
     (case sdp_extract_seqtype_safe buf bufsize 0 0 of
        Ret (scanned, _, _) \<Rightarrow>
          (let p = drop (nat scanned) buf
           in if (of_nat (get_be (take 2 (drop 1 p))) :: u16) = SDP_ATTR_RECORD_HANDLE
              then Some (of_nat (get_be (take 4 (drop 4 p)))) else None)
      | _ \<Rightarrow> None)"

definition target_handle :: "u32 option \<Rightarrow> u32 \<Rightarrow> u32 option" where
  "target_handle given expected =
     (case given of Some h \<Rightarrow> Some h | None \<Rightarrow> if expected \<noteq> 0xffffffff then Some expected else None)"

lemma rd_take: "rd n p = Ret v \<Longrightarrow> v = take n p"
  by (auto simp: rd_def split: if_splits)


lemma extract_server_split:
  assumes "extract_pdu_server k dev buf b ex st = Ret (Some a, sc, st')"
  obtains st1 r r' where "server_record dev (given_handle buf b) ex st = Ret (a, st1)" "rec_heap st1 a = Some r"
    "st' = rec_store st1 a r'" "handle r' = handle r"
proof -
  obtain scanned t seqlen where q: "sdp_extract_seqtype_safe buf b 0 0 = Ret (scanned, t, seqlen)"
    using assms by (auto simp: extract_pdu_server_def)
  let ?p = "drop (nat scanned) buf"
  obtain l where l: "rd 2 (drop 1 ?p) = Ret l" using assms q by (auto simp: extract_pdu_server_def Let_def split: if_splits)
  define G where "G = (if (of_nat (get_be l) :: u16) = SDP_ATTR_RECORD_HANDLE
       then run_bind (rd 4 (drop 4 ?p)) (\<lambda>h. Ret (Some (of_nat (get_be h) :: u32))) else Ret None)"
  define F where "F = (\<lambda>g. run_bind (server_record dev g ex st) (\<lambda>(a, st1).
                  run_bind (deref st1 a) (\<lambda>r.
                  run_bind (server_extract_loop k ?p (b - scanned) seqlen 0 False r) (\<lambda>(ok, r').
                    Ret (Some a, if ok then scanned + seqlen else scanned, rec_store st1 a r')))))"
  have "run_bind G F = Ret (Some a, sc, st')"
    using assms q l unfolding G_def F_def
    by (simp add: extract_pdu_server_def Let_def del: run_bind_eq_Ret split: if_splits)
  then obtain g where g: "G = Ret g" and rest: "F g = Ret (Some a, sc, st')" by auto
  have "given_handle buf b = g"
    using q g rd_take [OF l] rd_take [of 4 "drop 4 ?p"] by (auto simp: given_handle_def G_def Let_def split: if_splits)
  moreover from rest obtain st1 r ok r' where "server_record dev g ex st = Ret (a, st1)" "rec_heap st1 a = Some r"
      "server_extract_loop k ?p (b - scanned) seqlen 0 False r = Ret (ok, r')" "st' = rec_store st1 a r'"
    by (auto simp: F_def deref_def split: option.splits)
  ultimately show thesis using that server_loop_keeps_handle by blast
qed


lemma server_record_named:
  assumes "db_inv st" and "target_handle given ex = Some h" and "server_record dev given ex st = Ret (a, st1)"
  shows "db_inv st1 \<and> lookup st h \<in> {None, Some a} \<and> lookup st1 = (lookup st)(h \<mapsto> a) \<and> socket_index st1 = socket_index st
     \<and> (\<exists>r. rec_heap st1 a = Some r \<and> handle r = h)"
proof -
  have inv: "repo_inv st" using assms(1) by (simp add: db_inv_def)
  have key: "server_record dev given ex st = (case lookup st h of
             Some a \<Rightarrow> run_bind (deref st a) (\<lambda>r. Ret (a, rec_store st a (r\<lparr>attrlist := []\<rparr>)))
           | None \<Rightarrow> (let (a, st1) = rec_new st (sdp_record_alloc\<lparr>handle := h\<rparr>)
                             in run_bind (sdp_record_add dev a st1) (\<lambda>st2. Ret (a, st2))))"
    using assms(2) by (auto simp: server_record_def target_handle_def Let_def find_eq [OF inv] split: option.splits if_splits)
  show ?thesis
  proof (cases "lookup st h")
    case (Some a')
    then obtain r where r: "rec_heap st a = Some r" "st1 = rec_store st a (r\<lparr>attrlist := []\<rparr>)" "a' = a"
      using assms(3) key by (auto simp: deref_def split: option.splits)
    have same: "same_repo st st1" unfolding r(2) by (rule rec_store_same [OF r(1)]) simp
    have "handle r = h" using lookup_Some [OF Some] r by (simp add: rhandle_def)
    moreover have "rec_heap st1 a = Some (r\<lparr>attrlist := []\<rparr>)" "socket_index st1 = socket_index st"
      using r(2) by (simp_all add: rec_store_def)
    ultimately show ?thesis
      using assms(1) Some r(3) by (simp add: same_repo_facts [OF same] fun_upd_idem)
  next
    case None
    show ?thesis
    proof (rule rec_new_detached [OF inv, of "sdp_record_alloc\<lparr>handle := h\<rparr>"])
      fix b db
      assume n: "rec_new st (sdp_record_alloc\<lparr>handle := h\<rparr>) = (b, db)" "detached b st db" "rec_heap db b = Some (sdp_record_alloc\<lparr>handle := h\<rparr>)"
      have nl: "lookup st (handle (sdp_record_alloc\<lparr>handle := h\<rparr>)) = None" using None by simp
      show ?thesis
      proof (rule linked_server_add [OF n(2) assms(1) n(3) nl, of dev])
        fix db1
        assume "sdp_record_add dev b db = Ret db1" "db_inv db1" "rec_heap db1 = rec_heap db" "socket_index db1 = socket_index st"
          "lookup db1 = (lookup st)(handle (sdp_record_alloc\<lparr>handle := h\<rparr>) \<mapsto> b)"
        then show ?thesis using assms(3) key None n by auto
      qed
    qed
  qed
qed


lemma extract_server_named:
  assumes "db_inv st" and "extract_pdu_server k dev buf b ex st = Ret (Some a, sc, st')"
    and "target_handle (given_handle buf b) ex = Some h"
  obtains r where "db_inv st'" "lookup st h \<in> {None, Some a}" "lookup st' = (lookup st)(h \<mapsto> a)" "socket_index st' = socket_index st"
    "rec_heap st' a = Some r" "handle r = h"
proof (rule extract_server_split [OF assms(2)])
  fix st1 r r'
  assume *: "server_record dev (given_handle buf b) ex st = Ret (a, st1)" "rec_heap st1 a = Some r"
    "st' = rec_store st1 a r'" "handle r' = handle r"
  have 1: "db_inv st1" "lookup st h \<in> {None, Some a}" "lookup st1 = (lookup st)(h \<mapsto> a)" "socket_index st1 = socket_index st" "handle r = h"
    using server_record_named [OF assms(1,3) *(1)] *(2) by auto
  have same: "same_repo st1 st'" unfolding *(3) by (rule rec_store_same [OF *(2,4)])
  have "rec_heap st' a = Some r'" "socket_index st' = socket_index st"
    using *(3) 1(4) by (simp_all add: rec_store_def)
  then show thesis
    using that [of r'] 1 *(4) by (simp add: same_repo_facts [OF same])
qed


subsection \<open>The invariant of the sessions\<close>































subsection \<open>Runs of the server\<close>






subsection \<open>The end of a session\<close>



subsection \<open>An update that names another record\<close>

lemma server_record_returns:
  assumes "db_inv st"
  obtains a st' r where "server_record dev given ex st = Ret (a, st')" "rec_heap st' a = Some r"
proof -
  have inv: "repo_inv st" using assms by (simp add: db_inv_def)
  show thesis
  proof (cases "target_handle given ex")
    case None
    then show thesis
      using that by (simp add: server_record_def target_handle_def rec_new_def split: option.splits if_splits)
  next
    case (Some h)
    show thesis
    proof (cases "lookup st h")
      case None
      show thesis
      proof (rule rec_new_detached [OF inv, of "sdp_record_alloc\<lparr>handle := h\<rparr>"])
        fix b db assume n: "rec_new st (sdp_record_alloc\<lparr>handle := h\<rparr>) = (b, db)" "detached b st db"
          "rec_heap db b = Some (sdp_record_alloc\<lparr>handle := h\<rparr>)"
        have nl: "lookup st (handle (sdp_record_alloc\<lparr>handle := h\<rparr>)) = None" using None by simp
        show thesis
        proof (rule linked_server_add [OF n(2) assms n(3) nl, of dev])
          fix db1 assume a: "sdp_record_add dev b db = Ret db1" "rec_heap db1 = rec_heap db"
          have "server_record dev given ex st = Ret (b, db1)"
            using Some None n a by (auto simp: server_record_def target_handle_def find_eq [OF inv] split: option.splits if_splits)
          with that a n show thesis by simp
        qed
      qed
    next
      case (Some a)
      then obtain r where r: "rec_heap st a = Some r" using lookup_Some [OF Some] inv by (auto simp: repo_inv_def)
      show thesis
        by (rule that [of a "rec_store st a (r\<lparr>attrlist := []\<rparr>)" "r\<lparr>attrlist := []\<rparr>"])
          (use \<open>target_handle given ex = Some h\<close> Some r in
            \<open>auto simp: server_record_def target_handle_def find_eq [OF inv] deref_def rec_store_def split: option.splits if_splits\<close>)
    qed
  qed
qed

definition handle_data :: "u32 \<Rightarrow> sdp_data" where
  "handle_data g = Data SDP_UINT32 SDP_ATTR_RECORD_HANDLE (VNum (ucast g)) 5"

lemma handle_data_enc: "attr_enc (handle_data g) = SDP_UINT16 # put_be 2 0 @ SDP_UINT32 # put_be 4 (unat g)" "rt_ok (handle_data g)"
proof -
  have "unat g < 2 ^ 32" using unsigned_less [of g] by simp
  then have "unat (ucast g :: u64) = unat g" by (simp add: unat_ucast_mod)
  then show "attr_enc (handle_data g) = SDP_UINT16 # put_be 2 0 @ SDP_UINT32 # put_be 4 (unat g)"
    by (simp add: handle_data_def attr_enc_def scalar_bytes_def num_width_def is_str_def is_seq_alt_def)
qed (simp add: handle_data_def num_width_def is_str_def is_seq_alt_def scalar_rt_ok_def)

lemma extract_server_given:
  fixes ds k g
  defines "body \<equiv> concat (map attr_enc (handle_data g # ds))"
  assumes "db_inv st" and "\<forall>d \<in> set ds. rt_ok d"
    and "length body < 65536" and "int (length (seq_image body)) \<le> bufsize" and "2 * length (seq_image body) \<le> k"
  shows "given_handle (seq_image body) bufsize = Some g \<and> (\<exists>a sc db. extract_pdu_server k dev (seq_image body) bufsize ex st = Ret (Some a, sc, db))"
proof -
  have body: "body = SDP_UINT16 # put_be 2 0 @ SDP_UINT32 # put_be 4 (unat g) @ concat (map attr_enc ds)"
    by (simp add: body_def handle_data_enc)
  then have ne: "body \<noteq> []" and b8: "8 \<le> length body" by simp_all
  obtain h t where h: "seq_image body = h @ body" "1 \<le> length h"
    "sdp_extract_seqtype_safe (seq_image body @ []) bufsize 0 0 = Ret (int (length h), t, int (length body))"
    by (rule seqtype_image_rest [OF ne assms(4,5)])
  obtain a st' r where r: "server_record dev (Some g) ex st = Ret (a, st')" "rec_heap st' a = Some r"
    by (rule server_record_returns [OF assms(2)])
  have bb: "int (length body) \<le> bufsize - int (length h)" using assms(5) h(1) by simp
  have kk: "1 + 2 * length body \<le> k" using assms(6) h by simp
  have ok: "\<forall>d \<in> set (handle_data g # ds). rt_ok d" using assms(3) handle_data_enc(2) by simp
  obtain r' where r': "server_extract_loop k body (bufsize - int (length h)) (int (length body)) 0 False r = Ret (True, r')"
    using server_loop_enc [OF ok kk [unfolded body_def] bb [unfolded body_def], of "[]" 0 False r] unfolding body_def [symmetric] by auto
  have l: "rd 2 (drop 1 body) = Ret (put_be 2 0)" by (simp add: body rd_append)
  have f: "drop 4 body = put_be 4 (unat g) @ concat (map attr_enc ds)" by (simp add: body drop_Cons')
  then have f4: "rd 4 (drop 4 body) = Ret (put_be 4 (unat g))" by (simp add: rd_append)
  have z: "(of_nat (get_be (put_be 2 0)) :: u16) = 0" by (simp add: get_be_put_be_id)
  have sh: "\<not> short_of (bufsize - int (length h)) 2" "\<not> short_of (bufsize - int (length h)) 8"
    using bb b8 by (simp_all add: short_of_def)
  have "extract_pdu_server k dev (seq_image body) bufsize ex st = Ret (Some a, int (length (seq_image body)), rec_store st' a r')"
    using h r r' l f4 sh unfolding extract_pdu_server_def Let_def
    by (simp add: deref_def z handle_image del: drop_drop)
  moreover have "take 2 (drop 1 body) = put_be 2 0" using rd_take [OF l] by simp
  ultimately show ?thesis using h f unfolding given_handle_def Let_def by (simp add: z handle_image del: drop_drop)
qed

lemma find_dangling:
  assumes "repo_inv st" and "lookup st g = Some a"
  shows "sdp_record_find (st\<lparr>rec_heap := (rec_heap st)(a := None)\<rparr>) g = Fault"
proof -
  have *: "a \<in> set as \<Longrightarrow> \<forall>b \<in> set as. rec_heap st b \<noteq> None \<Longrightarrow> \<forall>b \<in> set as. b \<noteq> a \<longrightarrow> rhandle st b \<noteq> g \<Longrightarrow>
      record_list_find ((rec_heap st)(a := None)) as (sdp_record_alloc\<lparr>handle := g\<rparr>) = Fault" for as
    by (induction as) (auto simp: rhandle_def)
  have "\<forall>b \<in> set (service_db st). b \<noteq> a \<longrightarrow> rhandle st b \<noteq> g"
    using lookup_mem [OF assms(1)] assms(2) by fastforce
  with * [of "service_db st"] show ?thesis
    using lookup_Some [OF assms(2)] assms(1) by (simp add: sdp_record_find_def record_locate_def repo_inv_def)
qed

text \<open>
  C34: a local client can leave a dangling pointer in the repository. An update request for
  record \<open>h\<close> whose attributes begin with another handle \<open>g\<close> is answered with
  \<open>SDP_INVALID_SYNTAX\<close>, but the record that was found or created under \<open>g\<close> is freed while
  it is still linked: the next lookup of \<open>g\<close> reads freed memory.
\<close>

theorem foreign_update_dangles:
  assumes "srv_inv s" and "sdp_record_find (sdb s) h = Ret (Some oa)" and "g \<noteq> h" and "length hdr = 5"
    and "\<forall>d \<in> set ds. rt_ok d"
    and "body = seq_image (concat (map attr_enc (handle_data g # ds)))" and "length body < 65536" and "2 * length body \<le> fuel"
    and "req_buf req = hdr @ put_be 4 (unat h) @ body" and "req_len req = int (length (req_buf req))"
    and "2 \<le> buf_size rsp"
  shows "\<exists>b s'. service_update_req fuel now req rsp s = Ret (int SDP_INVALID_SYNTAX, b, s')
    \<and> sdp_record_find (sdb s') g = Fault"
proof -
  let ?l = "concat (map attr_enc (handle_data g # ds))"
  have inv: "db_inv (sdb s)" "repo_inv (sdb s)" using assms(1) by (simp_all add: srv_inv_def db_inv_def)
  have "length ?l \<le> length (seq_image ?l)" by (simp only: seq_image_def) (simp split: if_split)
  then have len: "length ?l < 65536" using assms(7) unfolding assms(6) by (rule le_less_trans)
  have x: "given_handle body (int (length body)) = Some g"
      "\<exists>a sc db. extract_pdu_server fuel BDADDR_ANY body (int (length body)) h (sdb s) = Ret (Some a, sc, db)"
    using extract_server_given [OF inv(1) assms(5) len, of "int (length body)" fuel] assms(6,8) by blast+
  then obtain a sc db where e: "extract_pdu_server fuel BDADDR_ANY body (int (length body)) h (sdb s) = Ret (Some a, sc, db)" by blast
  have t: "target_handle (given_handle body (int (length body))) h = Some g" by (simp add: x target_handle_def)
  obtain b where b: "rsp_put rsp 2 3 = Ret b" using rsp_put_effect [OF assms(11)] by blast
  show ?thesis
  proof (rule extract_server_named [OF inv(1) e t])
    fix r assume d: "db_inv db" "lookup db = (lookup (sdb s))(g \<mapsto> a)" "rec_heap db a = Some r" "handle r = g"
    let ?s = "s\<lparr>sdb := db\<lparr>rec_heap := (rec_heap db)(a := None)\<rparr>\<rparr>"
    have "service_update_req fuel now req rsp s = Ret (3, b, ?s)"
      using assms(2-4,9,10) e d b
      by (simp add: service_update_req_def rd_append handle_image deref_def sdp_record_free_def)
    moreover have "sdp_record_find (sdb ?s) g = Fault"
      using find_dangling [of db g a] d by (simp add: db_inv_def)
    ultimately show ?thesis by auto
  qed
qed

theorem foreign_update_dangles_witness:
  "\<exists>b s'. service_update_req 100 0 (ex_req ([1, 2, 3, 4, 5] @ put_be 4 0x10000 @ seq_image (attr_enc (handle_data 5)))) ex_rsp ex_srv
     = Ret (int SDP_INVALID_SYNTAX, b, s') \<and> sdp_record_find (sdb s') 5 = Fault"
proof -
  have l: "length (attr_enc (handle_data 5)) = 8" by (simp add: handle_data_enc)
  then have n: "length (seq_image (attr_enc (handle_data 5))) = 10" by (auto simp: seq_image_def)
  have f: "sdp_record_find (sdb ex_srv) 0x10000 = Ret (Some 1)"
    using ex_srv_inv by (simp add: find_eq srv_inv_def db_inv_def) (simp add: ex_srv_def lookup_def rhandle_def)
  show ?thesis
    by (rule foreign_update_dangles [OF ex_srv_inv f, where hdr = "[1, 2, 3, 4, 5]" and ds = "[]" and body = "seq_image (attr_enc (handle_data 5))"])
      (use n in \<open>simp_all add: ex_req_def ex_rsp_def\<close>)
qed

end
