(* ===== verification/UBCSP.thy ===== *)
theory UBCSP
  imports Bluez_Prelude
begin

section \<open>MicroBCSP\<close>

text \<open>
  \<open>utils/tools/ubcsp.c\<close>: the engine that carries HCI packets to a controller over a UART,
  built with \<open>UBCSP_CRC\<close> set, as \<open>ubcsp.h\<close> has it. The statics of the file are one record.
  \<open>put_uart\<close> appends to \<open>uart_tx\<close>; the octets \<open>get_uart\<close> can return before it returns 0 are
  \<open>uart_rx\<close>.

  A pointer to octets is the octets from there to the end of the object, or \<open>None\<close> for the
  null pointer; reading or writing outside an object is a \<open>Fault\<close>. The arrays a send pointer
  can point to are only overwritten when nothing is being sent, so such a pointer holds the
  contents. The caller's packet structures are values: one that the engine lets go of with
  data in it is appended to \<open>handed_back\<close>.
\<close>

unbundle bit_operations_syntax

subsection \<open>Data\<close>

abbreviation SLIP_FRAME :: byte where "SLIP_FRAME \<equiv> 0xC0"
abbreviation SLIP_ESCAPE :: byte where "SLIP_ESCAPE \<equiv> 0xDB"
abbreviation SLIP_ESCAPE_FRAME :: byte where "SLIP_ESCAPE_FRAME \<equiv> 0xDC"
abbreviation SLIP_ESCAPE_ESCAPE :: byte where "SLIP_ESCAPE_ESCAPE \<equiv> 0xDD"

abbreviation UBCSP_PACKET_SENT :: byte where "UBCSP_PACKET_SENT \<equiv> 0x01"
abbreviation UBCSP_PACKET_RECEIVED :: byte where "UBCSP_PACKET_RECEIVED \<equiv> 0x02"
abbreviation UBCSP_PEER_RESET :: byte where "UBCSP_PEER_RESET \<equiv> 0x04"
abbreviation UBCSP_PACKET_ACK :: byte where "UBCSP_PACKET_ACK \<equiv> 0x08"

abbreviation (input) UBCSP_POLL_TIME_DELAY :: int where "UBCSP_POLL_TIME_DELAY \<equiv> 25"

record ubcsp_packet =
  channel :: byte
  reliable :: byte
  use_crc :: byte
  pk_length :: u16
  payload :: "byte list option"

datatype le_state = Le_Uninitialized | Le_Initialized | Le_Active

datatype le_packet = Le_Sync | Le_Sync_Resp | Le_Conf | Le_Conf_Resp | Le_None

record ubcsp_configuration =
  link_establishment_state :: le_state
  link_establishment_resp :: nat
  link_establishment_packet :: le_packet
  sequence_number :: "3 word"
  ack_number :: "3 word"
  send_ack :: bool
  send_packet :: "ubcsp_packet option"
  receive_packet :: "ubcsp_packet option"
  receive_slip_escape :: bool
  receive_index :: int
  need_send_crc :: bool
  send_crc :: u16
  send_slip_escape :: byte
  send_ptr :: "byte list option"
  send_size :: int
  next_send_ptr :: "byte list option"
  next_send_size :: int
  delay :: int
  receive_header :: "byte list"
  uart_tx :: "byte list"
  uart_rx :: "byte list"
  handed_back :: "ubcsp_packet list"

definition ubcsp_le_buffer :: "byte list list" where
  "ubcsp_le_buffer =
     [[0xDA, 0xDC, 0xED, 0xED], [0xAC, 0xAF, 0xEF, 0xEE], [0xAD, 0xEF, 0xAC, 0xED], [0xDE, 0xAD, 0xD0, 0xD0]]"

definition ubcsp_send_le_header :: "byte list" where
  "ubcsp_send_le_header = [0x40, 0x41, 0x00, 0x7E]"

definition ubcsp_deslip :: "byte list" where
  "ubcsp_deslip = [SLIP_FRAME, SLIP_ESCAPE]"

text \<open>The table has 16 entries, of which the initialiser gives 12; the others are 0, \<open>ubcsp_le_sync\<close>.\<close>

definition next_le_packet :: "le_packet list" where
  "next_le_packet =
     [Le_Sync, Le_Conf, Le_None, Le_None, Le_Sync_Resp, Le_Sync_Resp, Le_None, Le_None,
      Le_None, Le_Conf_Resp, Le_Conf_Resp, Le_None, Le_Sync, Le_Sync, Le_Sync, Le_Sync]"

fun le_state_num :: "le_state \<Rightarrow> nat" where
  "le_state_num Le_Uninitialized = 0"
| "le_state_num Le_Initialized = 1"
| "le_state_num Le_Active = 2"

fun le_packet_num :: "le_packet \<Rightarrow> nat" where
  "le_packet_num Le_Sync = 0"
| "le_packet_num Le_Sync_Resp = 1"
| "le_packet_num Le_Conf = 2"
| "le_packet_num Le_Conf_Resp = 3"
| "le_packet_num Le_None = 4"

definition tbl :: "'a list \<Rightarrow> int \<Rightarrow> 'a run" where
  "tbl xs i = (if 0 \<le> i \<and> i < int (length xs) then Ret (xs ! nat i) else Fault)"

subsection \<open>The caller's interface\<close>

definition ubcsp_initialize :: "ubcsp_configuration \<Rightarrow> ubcsp_configuration" where
  "ubcsp_initialize c = c\<lparr>ack_number := 0, sequence_number := 0, send_ptr := None, send_size := 0,
     receive_index := -4, delay := 0,
     link_establishment_state := Le_Uninitialized, link_establishment_packet := Le_Sync\<rparr>"

definition ubcsp_send_packet :: "ubcsp_packet \<Rightarrow> ubcsp_configuration \<Rightarrow> ubcsp_configuration" where
  "ubcsp_send_packet p c = c\<lparr>send_packet := Some p, send_size := 0, send_ptr := None\<rparr>"

definition ubcsp_receive_packet :: "ubcsp_packet \<Rightarrow> ubcsp_configuration \<Rightarrow> ubcsp_configuration" where
  "ubcsp_receive_packet p c = c\<lparr>receive_packet := Some p, receive_index := -4\<rparr>"

subsection \<open>The checksum\<close>

definition crc_table :: "u16 list" where
  "crc_table = [0x0000, 0x1081, 0x2102, 0x3183, 0x4204, 0x5285, 0x6306, 0x7387,
                0x8408, 0x9489, 0xa50a, 0xb58b, 0xc60c, 0xd68d, 0xe70e, 0xf78f]"

definition ubcsp_calc_crc :: "byte \<Rightarrow> u16 \<Rightarrow> u16" where
  "ubcsp_calc_crc ch crc =
     (let crc1 = drop_bit 4 crc XOR crc_table ! unat ((crc XOR ucast ch) AND 0x000f)
      in drop_bit 4 crc1 XOR crc_table ! unat ((crc1 XOR ucast (drop_bit 4 ch)) AND 0x000f))"

fun crc_reverse_loop :: "nat \<Rightarrow> u32 \<Rightarrow> u16 \<Rightarrow> u32" where
  "crc_reverse_loop 0 rv crc = rv"
| "crc_reverse_loop (Suc n) rv crc = crc_reverse_loop n (push_bit 1 rv OR ucast (crc AND 1)) (drop_bit 1 crc)"

definition ubcsp_crc_reverse :: "u16 \<Rightarrow> u16" where
  "ubcsp_crc_reverse crc = ucast (crc_reverse_loop 16 0 crc)"

subsection \<open>Octets to the UART\<close>

definition put_uart :: "byte \<Rightarrow> ubcsp_configuration \<Rightarrow> ubcsp_configuration" where
  "put_uart v c = c\<lparr>uart_tx := uart_tx c @ [v]\<rparr>"

definition ubcsp_put_slip_uart :: "byte \<Rightarrow> ubcsp_configuration \<Rightarrow> ubcsp_configuration" where
  "ubcsp_put_slip_uart ch c =
     (if ch = SLIP_FRAME then (put_uart SLIP_ESCAPE c)\<lparr>send_slip_escape := SLIP_ESCAPE_FRAME\<rparr>
      else if ch = SLIP_ESCAPE then (put_uart SLIP_ESCAPE c)\<lparr>send_slip_escape := SLIP_ESCAPE_ESCAPE\<rparr>
      else put_uart ch c)"

subsection \<open>Received packets\<close>

fun le_same :: "byte list \<Rightarrow> byte list \<Rightarrow> bool run" where
  "le_same p [] = Ret True"
| "le_same [] (x # xs) = Fault"
| "le_same (y # p) (x # xs) = (if y \<noteq> x then Ret False else le_same p xs)"

fun le_search :: "byte list list \<Rightarrow> nat \<Rightarrow> byte list \<Rightarrow> nat run" where
  "le_search [] i p = Ret 5"
| "le_search (b # bs) i p = run_bind (le_same p b) (\<lambda>m. if m then Ret i else le_search bs (i + 1) p)"

definition ubcsp_which_le_payload :: "byte list \<Rightarrow> nat run" where
  "ubcsp_which_le_payload p = le_search ubcsp_le_buffer 0 p"

text \<open>The checks of \<open>ubcsp_recevied_packet\<close>: \<open>None\<close> is an error that asks for an ACK to be sent.\<close>

definition header_ok :: "byte list \<Rightarrow> bool" where
  "header_ok h \<longleftrightarrow> h ! 0 + h ! 1 + h ! 2 + h ! 3 = 0xff"

definition header_crc :: "byte list \<Rightarrow> bool" where
  "header_crc h \<longleftrightarrow> h ! 0 AND 0x40 \<noteq> 0"

definition header_ack :: "byte list \<Rightarrow> byte" where
  "header_ack h = drop_bit 3 (h ! 0 AND 0x38)"

definition header_seq :: "byte list \<Rightarrow> byte" where
  "header_seq h = h ! 0 AND 0x07"

definition header_length :: "byte list \<Rightarrow> u16" where
  "header_length h = ucast (drop_bit 4 (h ! 1 AND 0xf0)) OR push_bit 4 (ucast (h ! 2))"

fun crc_fold :: "byte list \<Rightarrow> u16 \<Rightarrow> u16" where
  "crc_fold [] crc = crc"
| "crc_fold (b # bs) crc = crc_fold bs (ubcsp_calc_crc b crc)"

definition check_crc :: "byte list \<Rightarrow> byte list \<Rightarrow> nat \<Rightarrow> bool run" where
  "check_crc h p n =
     (if n + 2 \<le> length p
      then let crc = ubcsp_crc_reverse (crc_fold (take n p) (crc_fold h 0xffff))
           in Ret (ucast (drop_bit 8 crc) = p ! n \<and> ucast crc = p ! (n + 1))
      else Fault)"

definition check_packet :: "byte list \<Rightarrow> byte list option \<Rightarrow> int \<Rightarrow> int option run" where
  "check_packet h p index =
     (let len = header_length h
      in if header_crc h
         then if int (unat len) + 2 \<noteq> index then Ret None
              else run_bind (case p of Some q \<Rightarrow> check_crc h q (nat (index - 2)) | None \<Rightarrow> Fault)
                     (\<lambda>ok. Ret (if ok then Some (index - 2) else None))
         else Ret (if int (unat len) \<noteq> index then None else Some index))"

definition take_ack :: "byte \<Rightarrow> ubcsp_configuration \<Rightarrow> byte \<times> ubcsp_configuration" where
  "take_ack receive_ack c =
     (if receive_ack \<noteq> ucast (sequence_number c)
      then case send_packet c of
             Some p \<Rightarrow> if reliable p \<noteq> 0
                       then (UBCSP_PACKET_SENT, c\<lparr>send_packet := None, sequence_number := sequence_number c + 1, delay := 0\<rparr>)
                       else (0, c)
           | None \<Rightarrow> (0, c)
      else (0, c))"

definition receive_le :: "nat \<Rightarrow> byte \<Rightarrow> ubcsp_configuration \<Rightarrow> byte \<times> ubcsp_configuration" where
  "receive_le which activity c =
     (if which = 0
      then if link_establishment_state c \<noteq> Le_Active then (activity, c\<lparr>link_establishment_resp := 1\<rparr>)
           else (UBCSP_PEER_RESET, ubcsp_initialize c)
      else if which = 1
      then (activity, if link_establishment_state c = Le_Uninitialized
                      then c\<lparr>link_establishment_state := Le_Initialized\<rparr> else c)
      else if which = 2
      then (activity, if link_establishment_state c \<noteq> Le_Uninitialized then c\<lparr>link_establishment_resp := 2\<rparr> else c)
      else if which = 3 \<and> link_establishment_state c \<noteq> Le_Active
      then (activity OR UBCSP_PACKET_SENT, c\<lparr>link_establishment_state := Le_Active, send_size := 0\<rparr>)
      else (activity, c))"

text \<open>Handing the filled structure back: its length is set and the engine forgets it.\<close>

definition hand_back :: "ubcsp_packet \<Rightarrow> u16 \<Rightarrow> ubcsp_configuration \<Rightarrow> ubcsp_configuration" where
  "hand_back p len c = c\<lparr>receive_packet := None, handed_back := handed_back c @ [p\<lparr>pk_length := len\<rparr>]\<rparr>"

definition receive_data :: "ubcsp_packet \<Rightarrow> byte \<Rightarrow> u16 \<Rightarrow> byte \<Rightarrow> ubcsp_configuration \<Rightarrow> byte \<times> ubcsp_configuration" where
  "receive_data p receive_seq len activity c =
     (if link_establishment_state c = Le_Active
      then if reliable p \<noteq> 0
           then if receive_seq = ucast (ack_number c)
                then (activity OR (UBCSP_PACKET_RECEIVED OR UBCSP_PACKET_ACK),
                      hand_back p len (c\<lparr>send_ack := True, ack_number := ack_number c + 1\<rparr>))
                else (activity, c\<lparr>send_ack := True\<rparr>)
           else (activity OR UBCSP_PACKET_RECEIVED, hand_back p len c)
      else (activity, c))"

text \<open>A packet that passed the checks, in the order of \<open>ubcsp_recevied_packet\<close>.\<close>

definition accept_packet :: "byte list \<Rightarrow> ubcsp_packet \<Rightarrow> int \<Rightarrow> ubcsp_configuration \<Rightarrow> (byte \<times> ubcsp_configuration) run" where
  "accept_packet h p index c =
     (case take_ack (header_ack h) c of (activity, c1) \<Rightarrow>
        if channel p = 1
        then run_bind (case payload p of Some q \<Rightarrow> ubcsp_which_le_payload q | None \<Rightarrow> Fault)
               (\<lambda>which. Ret (receive_le which activity (c1\<lparr>delay := 0\<rparr>)))
        else if index \<noteq> 0 then Ret (receive_data p (header_seq h) (header_length h) activity c1)
        else Ret (activity, c1))"

definition decode_header :: "byte list \<Rightarrow> ubcsp_packet \<Rightarrow> ubcsp_packet" where
  "decode_header h p = p\<lparr>reliable := drop_bit 7 (h ! 0 AND 0x80), channel := h ! 1 AND 0x0f\<rparr>"

definition ubcsp_recevied_packet :: "ubcsp_configuration \<Rightarrow> (byte \<times> ubcsp_configuration) run" where
  "ubcsp_recevied_packet c =
     (let h = receive_header c
      in if \<not> header_ok h then Ret (0, c\<lparr>send_ack := True\<rparr>)
         else case receive_packet c of
                None \<Rightarrow> Fault
              | Some p0 \<Rightarrow>
                  let p = decode_header h p0; c1 = c\<lparr>receive_packet := Some p\<rparr>
                  in run_bind (check_packet h (payload p) (receive_index c)) (\<lambda>r.
                       case r of
                         None \<Rightarrow> Ret (0, c1\<lparr>send_ack := True\<rparr>)
                       | Some index \<Rightarrow> accept_packet h p index (c1\<lparr>receive_index := index\<rparr>)))"

subsection \<open>Sending\<close>

definition ubcsp_setup_packet ::
    "byte list \<Rightarrow> bool \<Rightarrow> byte list option \<Rightarrow> u16 \<Rightarrow> ubcsp_configuration \<Rightarrow> ubcsp_configuration" where
  "ubcsp_setup_packet part1 calc part2 len2 c =
     c\<lparr>send_ptr := Some (if calc then part1[3 := NOT (part1 ! 0 + part1 ! 1 + part1 ! 2)] else part1),
       send_size := 4, next_send_ptr := part2, next_send_size := int (unat len2),
       send_crc := 0xffff, need_send_crc := True\<rparr>"

definition ubcsp_sent_packet :: "ubcsp_configuration \<Rightarrow> byte \<times> ubcsp_configuration" where
  "ubcsp_sent_packet c =
     (case send_packet c of
        Some p \<Rightarrow> if reliable p = 0 then (UBCSP_PACKET_SENT, c\<lparr>send_packet := None\<rparr>) else (0, c)
      | None \<Rightarrow> (0, c))"

text \<open>The next octet of what is being sent, and the end of a block.\<close>

definition send_octet :: "ubcsp_configuration \<Rightarrow> ubcsp_configuration run" where
  "send_octet c =
     (if send_slip_escape c \<noteq> 0
      then Ret ((put_uart (send_slip_escape c) c)\<lparr>send_slip_escape := 0\<rparr>)
      else case send_ptr c of
             Some (v # p) \<Rightarrow> Ret (ubcsp_put_slip_uart v (c\<lparr>send_ptr := Some p, send_crc := ubcsp_calc_crc v (send_crc c)\<rparr>))
           | _ \<Rightarrow> Fault)"

definition next_block :: "ubcsp_configuration \<Rightarrow> byte \<times> int \<times> ubcsp_configuration" where
  "next_block c0 =
     (let c = c0\<lparr>send_ptr := next_send_ptr c0, send_size := next_send_size c0, next_send_ptr := None, next_send_size := 0\<rparr>
      in if send_ptr c = None
         then if need_send_crc c
              then let crc = ubcsp_crc_reverse (send_crc c)
                   in (0, 0, c\<lparr>need_send_crc := False, send_crc := crc,
                               send_ptr := Some [ucast (drop_bit 8 crc), ucast crc], send_size := 2\<rparr>)
              else let (activity, c') = ubcsp_sent_packet (put_uart SLIP_FRAME c) in (activity, UBCSP_POLL_TIME_DELAY, c')
         else (0, 0, c))"

definition poll_block :: "ubcsp_configuration \<Rightarrow> (byte \<times> int \<times> ubcsp_configuration) run" where
  "poll_block c =
     run_bind (send_octet c) (\<lambda>c1.
       if send_slip_escape c1 \<noteq> 0 then Ret (0, 0, c1)
       else let c2 = c1\<lparr>send_size := send_size c1 - 1\<rparr>
            in Ret (if send_size c2 = 0 then next_block c2 else (0, 0, c2)))"

definition send_header :: "ubcsp_packet \<Rightarrow> ubcsp_configuration \<Rightarrow> byte list" where
  "send_header p c =
     [push_bit 7 (reliable p) OR 0x40 OR push_bit 3 (ucast (ack_number c)) OR ucast (sequence_number c),
      (channel p AND 0x0f) OR (ucast (push_bit 4 (pk_length p)) AND 0xf0),
      ucast (drop_bit 4 (pk_length p)), 0]"

definition ack_header :: "ubcsp_configuration \<Rightarrow> byte list" where
  "ack_header c = [0x40 OR push_bit 3 (ucast (ack_number c)), 0x00, 0x00, 0x00]"

text \<open>With nothing in transmission and no link establishment packet due: what is sent next.\<close>

definition poll_idle :: "ubcsp_configuration \<Rightarrow> byte \<times> int \<times> ubcsp_configuration" where
  "poll_idle c =
     (if bit (link_establishment_resp c) 1
      then (0, 0, (ubcsp_setup_packet ubcsp_send_le_header False (Some (ubcsp_le_buffer ! le_packet_num Le_Conf_Resp)) 4
                     (put_uart SLIP_FRAME c))\<lparr>link_establishment_resp := 0\<rparr>)
      else case send_packet c of
             Some p \<Rightarrow> (0, 0, (ubcsp_setup_packet (send_header p c) True (payload p) (pk_length p)
                                 (put_uart SLIP_FRAME c))\<lparr>send_ack := False\<rparr>)
           | None \<Rightarrow>
               if send_ack c
               then (0, 0, (ubcsp_setup_packet (ack_header c) True None 0 (put_uart SLIP_FRAME c))\<lparr>send_ack := False\<rparr>)
               else (0, UBCSP_POLL_TIME_DELAY, c))"

definition poll_le :: "ubcsp_configuration \<Rightarrow> ubcsp_configuration run" where
  "poll_le c =
     run_bind (tbl ubcsp_le_buffer (int (le_packet_num (link_establishment_packet c)))) (\<lambda>msg.
     let c1 = (ubcsp_setup_packet ubcsp_send_le_header False (Some msg) 4 (put_uart SLIP_FRAME c))\<lparr>delay := 0\<rparr>
     in run_bind (tbl next_le_packet (int (le_state_num (link_establishment_state c1) + link_establishment_resp c1 * 4))) (\<lambda>nx.
          Ret (c1\<lparr>link_establishment_packet := nx, link_establishment_resp := 0\<rparr>)))"

subsection \<open>Receiving\<close>

definition store_octet :: "byte \<Rightarrow> ubcsp_configuration \<Rightarrow> ubcsp_configuration run" where
  "store_octet v c =
     (if receive_index c < 0
      then if -4 \<le> receive_index c
           then Ret (c\<lparr>receive_header := (receive_header c)[nat (receive_index c + 4) := v], receive_index := receive_index c + 1\<rparr>)
           else Fault
      else case receive_packet c of
             None \<Rightarrow> Fault
           | Some p \<Rightarrow>
               if receive_index c < int (unat (pk_length p))
               then case payload p of
                      Some q \<Rightarrow> if nat (receive_index c) < length q
                                then Ret (c\<lparr>receive_packet := Some (p\<lparr>payload := Some (q[nat (receive_index c) := v])\<rparr>),
                                            receive_index := receive_index c + 1\<rparr>)
                                else Fault
                    | None \<Rightarrow> Fault
               else Ret c)"

definition end_of_frame :: "byte \<Rightarrow> ubcsp_configuration \<Rightarrow> (byte \<times> ubcsp_configuration) run" where
  "end_of_frame activity c =
     run_bind (if 0 \<le> receive_index c
               then run_bind (ubcsp_recevied_packet c) (\<lambda>(a, c1).
                      let act = activity OR a
                      in Ret (act, if act AND UBCSP_PACKET_ACK \<noteq> 0 then c1\<lparr>delay := 0\<rparr> else c1))
               else Ret (activity, c))
       (\<lambda>(act, c2). Ret (act, c2\<lparr>receive_index := -4\<rparr>))"

definition receive_octet :: "byte \<Rightarrow> byte \<Rightarrow> ubcsp_configuration \<Rightarrow> (byte \<times> ubcsp_configuration) run" where
  "receive_octet v activity c =
     (if receive_slip_escape c
      then run_bind (tbl ubcsp_deslip (int (unat v) - int (unat SLIP_ESCAPE_FRAME))) (\<lambda>w.
           run_bind (store_octet w (c\<lparr>receive_slip_escape := False\<rparr>)) (\<lambda>c1. Ret (activity, c1)))
      else if v = SLIP_FRAME then end_of_frame activity c
      else if v = SLIP_ESCAPE then Ret (activity, c\<lparr>receive_slip_escape := True\<rparr>)
      else run_bind (store_octet v c) (\<lambda>c1. Ret (activity, c1)))"

fun receive_loop :: "byte list \<Rightarrow> byte \<Rightarrow> ubcsp_configuration \<Rightarrow> (byte \<times> ubcsp_configuration) run" where
  "receive_loop [] activity c = Ret (activity, c\<lparr>uart_rx := []\<rparr>)"
| "receive_loop (v # vs) activity c =
     (if receive_packet c = None then Ret (activity, c\<lparr>uart_rx := v # vs\<rparr>)
      else run_bind (receive_octet v activity c) (\<lambda>(a, c1). receive_loop vs a c1))"

subsection \<open>The engine\<close>

text \<open>\<open>ubcsp_poll\<close>: the activity, the value returned and the new state.\<close>

definition poll_receive :: "byte \<Rightarrow> int \<Rightarrow> ubcsp_configuration \<Rightarrow> (byte \<times> int \<times> ubcsp_configuration) run" where
  "poll_receive activity dl c =
     run_bind (receive_loop (uart_rx c) activity c) (\<lambda>(a, c1).
     let d = (if delay c1 > 0 then delay c1 - 1 else dl) in Ret (a, d, c1\<lparr>delay := d\<rparr>))"

definition ubcsp_poll :: "ubcsp_configuration \<Rightarrow> (byte \<times> int \<times> ubcsp_configuration) run" where
  "ubcsp_poll c =
     (if delay c \<noteq> 0 then poll_receive 0 0 c
      else if send_size c \<noteq> 0 then run_bind (poll_block c) (\<lambda>(a, dl, c1). poll_receive a dl c1)
      else if link_establishment_packet c = Le_None then (case poll_idle c of (a, dl, c1) \<Rightarrow> poll_receive a dl c1)
      else run_bind (poll_le c) (\<lambda>c1. Ret (0, 0, c1)))"

end
