(* ===== verification/UBCSP_Send.thy ===== *)
theory UBCSP_Send
  imports UBCSP
begin

section \<open>What the engine puts on the line\<close>

text \<open>
  The checksum of \<open>utils/tools/ubcsp.c\<close> against a bitwise reference, the escaped frame that
  carries a packet, and the polls that send one: octet by octet, block by block, and as a
  whole. The theorems at the end say which frame a packet becomes, and which packets are
  never sent.
\<close>

subsection \<open>The checksum is the bitwise CRC\<close>

text \<open>One shift of the register of the CCITT polynomial, least significant bit first.\<close>

definition crc_shift :: "u16 \<Rightarrow> u16" where
  "crc_shift w = drop_bit 1 w XOR (if bit w 0 then 0x8408 else 0)"

definition crc_bitwise :: "byte \<Rightarrow> u16 \<Rightarrow> u16" where
  "crc_bitwise ch crc = (crc_shift ^^ 8) (crc XOR ucast ch)"

lemma crc_shift_xor: "crc_shift (x XOR y) = crc_shift x XOR crc_shift y"
  by (simp add: crc_shift_def bit_xor_iff drop_bit_xor xor.assoc xor.left_commute xor.commute)

lemma crc_shifts_xor: "(crc_shift ^^ n) (x XOR y) = (crc_shift ^^ n) x XOR (crc_shift ^^ n) y"
  by (induction n) (simp_all add: crc_shift_xor)

lemma crc_shifts_high: "(\<And>i. i < n \<Longrightarrow> \<not> bit w i) \<Longrightarrow> (crc_shift ^^ n) w = drop_bit n w"
proof (induction n arbitrary: w)
  case (Suc n)
  have "crc_shift w = drop_bit 1 w" using Suc.prems [of 0] by (simp add: crc_shift_def)
  moreover have "(crc_shift ^^ n) (drop_bit 1 w) = drop_bit n (drop_bit 1 w)"
    using Suc.prems by (intro Suc.IH) (simp add: bit_drop_bit_eq)
  ultimately show ?case by (simp add: funpow_swap1 del: funpow.simps) (simp add: funpow_Suc_right del: funpow.simps)
qed simp

lemma crc_table_shifts: "i < 16 \<Longrightarrow> crc_table ! i = (crc_shift ^^ 4) (of_nat i)"
proof -
  have "\<forall>i \<in> set [0..<16]. crc_table ! i = (crc_shift ^^ 4) (of_nat i)" by code_simp
  then show "i < 16 \<Longrightarrow> crc_table ! i = (crc_shift ^^ 4) (of_nat i)" by simp
qed

lemma nibble_step: "drop_bit 4 w XOR crc_table ! unat (w AND 0x000f) = (crc_shift ^^ 4) w"
proof -
  have b: "bit (0xf :: u16) i \<longleftrightarrow> i < 4" for i
  proof -
    have m: "(0xf :: u16) = mask 4" by (simp add: mask_eq_exp_minus_1)
    show ?thesis unfolding m bit_mask_iff by auto
  qed
  have w: "w = (w AND NOT 0xf) XOR (w AND 0xf)" by (rule bit_eqI) (auto simp: bit_simps b)
  have "unat (w AND 0xf) \<le> unat (0xf :: u16)" by (meson word_and_le1 word_le_nat_alt)
  then have "unat (w AND 0xf) < 16" by simp
  then have t: "crc_table ! unat (w AND 0xf) = (crc_shift ^^ 4) (w AND 0xf)" using crc_table_shifts by simp
  have h: "(crc_shift ^^ 4) (w AND NOT 0xf) = drop_bit 4 (w AND NOT 0xf)"
    by (rule crc_shifts_high) (simp only: bit_and_iff bit_not_iff b, simp)
  have d: "drop_bit 4 (w AND NOT 0xf) = drop_bit 4 w"
    by (rule bit_eqI) (unfold bit_drop_bit_eq comp_apply bit_and_iff bit_not_iff b, auto dest: bit_imp_possible_bit)
  show ?thesis by (subst (3) w) (simp only: crc_shifts_xor t h d)
qed

lemma calc_crc_bitwise: "ubcsp_calc_crc ch crc = crc_bitwise ch crc"
proof -
  let ?w = "crc XOR ucast ch :: u16"
  have n: "drop_bit 4 (ucast ch :: u16) = ucast (drop_bit 4 ch)" by (rule bit_eqI) (auto simp: bit_simps dest: bit_imp_le_length)
  have z: "drop_bit 4 (ucast (drop_bit 4 ch) :: u16) = 0"
    by (rule bit_eqI) (auto simp: bit_simps dest: bit_imp_le_length)
  define crc1 where "crc1 = drop_bit 4 crc XOR crc_table ! unat (?w AND 0x000f)"
  have 1: "crc1 XOR ucast (drop_bit 4 ch) = (crc_shift ^^ 4) ?w"
    unfolding nibble_step [symmetric] crc1_def by (simp add: drop_bit_xor n xor.assoc xor.left_commute xor.commute)
  have 2: "drop_bit 4 crc1 = drop_bit 4 (crc1 XOR ucast (drop_bit 4 ch))" by (simp add: drop_bit_xor z)
  have "ubcsp_calc_crc ch crc = (crc_shift ^^ 4) ((crc_shift ^^ 4) ?w)"
    unfolding ubcsp_calc_crc_def Let_def crc1_def [symmetric] 2 1 by (rule nibble_step)
  also have "\<dots> = (crc_shift ^^ (4 + 4)) ?w" by (simp only: funpow_add comp_apply)
  finally show ?thesis by (simp add: crc_bitwise_def)
qed

lemma crc_reverse_loop_bits:
  "n + k \<le> 32 \<Longrightarrow> n \<le> 16 \<Longrightarrow> (\<And>i. bit rv i \<Longrightarrow> i < k) \<Longrightarrow> bit (crc_reverse_loop n rv crc) i \<longleftrightarrow>
     (if i < n then bit crc (n - 1 - i) else bit rv (i - n))"
proof (induction n arbitrary: rv crc k i)
  case (Suc n)
  let ?r = "push_bit 1 rv OR ucast (crc AND 1)"
  have r: "bit ?r j \<longleftrightarrow> (if j = 0 then bit crc 0 else bit rv (j - 1))" if "j < 32" for j
    using that unfolding bit_or_iff bit_push_bit_iff by (auto simp: bit_simps)
  have "bit ?r j \<Longrightarrow> j < Suc k" for j
    using r [of j] Suc.prems(3) [of "j - 1"] bit_imp_le_length [of ?r j] by (auto split: if_splits)
  with Suc.IH [of "Suc k" ?r "drop_bit 1 crc" i] Suc.prems
  have "bit (crc_reverse_loop n ?r (drop_bit 1 crc)) i \<longleftrightarrow>
      (if i < n then bit crc (n - i) else bit ?r (i - n))"
    by (auto simp: bit_drop_bit_eq Suc_diff_Suc)
  moreover have "\<not> bit rv j" "\<not> bit ?r j" if "32 \<le> j" for j
    using that bit_imp_le_length [of rv j] bit_imp_le_length [of ?r j] by auto
  ultimately show ?case
    using r [of "i - n"] Suc.prems(1) Suc.prems(3) [of "i - Suc n"] by (cases "i - n < 32") (auto simp: not_less Suc_diff_le less_Suc_eq)
qed simp

lemma crc_reverse_bits: "n < 16 \<Longrightarrow> bit (ubcsp_crc_reverse crc) n = bit crc (15 - n)"
  using crc_reverse_loop_bits [of 16 0 0 crc n] by (simp add: ubcsp_crc_reverse_def bit_simps)

subsection \<open>Framing\<close>

definition slip :: "byte \<Rightarrow> byte list" where
  "slip v = (if v = SLIP_FRAME then [SLIP_ESCAPE, SLIP_ESCAPE_FRAME]
             else if v = SLIP_ESCAPE then [SLIP_ESCAPE, SLIP_ESCAPE_ESCAPE] else [v])"

definition slips :: "byte list \<Rightarrow> byte list" where
  "slips vs = concat (map slip vs)"

lemma slips_simps [simp]: "slips [] = []" "slips (v # vs) = slip v @ slips vs" "slips (xs @ ys) = slips xs @ slips ys"
  by (simp_all add: slips_def)

text \<open>The header with its checksum, the checksum of a packet, and the frame that carries it.\<close>

definition sealed :: "byte list \<Rightarrow> byte list" where
  "sealed h = h[3 := NOT (h ! 0 + h ! 1 + h ! 2)]"

definition crc_octets :: "byte list \<Rightarrow> byte list" where
  "crc_octets bs = (let crc = ubcsp_crc_reverse (crc_fold bs 0xffff) in [ucast (drop_bit 8 crc), ucast crc])"

definition frame :: "byte list \<Rightarrow> byte list \<Rightarrow> byte list" where
  "frame h body = SLIP_FRAME # slips (h @ body @ crc_octets (h @ body)) @ [SLIP_FRAME]"

lemma crc_fold_append [simp]: "crc_fold (xs @ ys) crc = crc_fold ys (crc_fold xs crc)"
  by (induction xs arbitrary: crc) simp_all

lemma length_sealed [simp]: "length (sealed h) = length h"
  by (simp add: sealed_def)

subsection \<open>Runs of the engine\<close>

fun polls :: "nat \<Rightarrow> ubcsp_configuration \<Rightarrow> (byte \<times> ubcsp_configuration) run" where
  "polls 0 c = Ret (0, c)"
| "polls (Suc n) c =
     run_bind (ubcsp_poll c) (\<lambda>(a, _, c1). run_bind (polls n c1) (\<lambda>(b, c2). Ret (a OR b, c2)))"

lemma polls_add:
  "polls m c = Ret (a, c1) \<Longrightarrow> polls n c1 = Ret (b, c2) \<Longrightarrow> polls (m + n) c = Ret (a OR b, c2)"
proof (induction m arbitrary: c a)
  case (Suc m)
  then obtain a1 d c' a2 where "ubcsp_poll c = Ret (a1, d, c')" "polls m c' = Ret (a2, c1)" "a = a1 OR a2" by auto
  with Suc.IH [of c' a2] Suc.prems(2) show ?case by (simp add: or.assoc)
qed simp

text \<open>Nothing arrives during transmission.\<close>

lemma idle_receive:
  assumes "uart_rx c = []" and "delay c = 0"
  shows "poll_receive a dl c = Ret (a, dl, c\<lparr>delay := dl\<rparr>)"
  using assms by (simp add: poll_receive_def)

definition block_sent :: "ubcsp_configuration \<Rightarrow> (byte \<times> ubcsp_configuration) run" where
  "block_sent c = (case next_block c of (a, dl, c1) \<Rightarrow> Ret (a, c1\<lparr>delay := dl\<rparr>))"

definition after_octets :: "byte list \<Rightarrow> byte list \<Rightarrow> ubcsp_configuration \<Rightarrow> ubcsp_configuration" where
  "after_octets vs rest c =
     c\<lparr>send_ptr := Some rest, send_crc := crc_fold vs (send_crc c), uart_tx := uart_tx c @ slips vs,
       send_size := send_size c - int (length vs)\<rparr>"

lemma next_block_frame:
  "next_block c = (a, dl, c1) \<Longrightarrow> uart_rx c1 = uart_rx c \<and> delay c1 = delay c"
  by (auto simp: next_block_def ubcsp_sent_packet_def put_uart_def Let_def split: if_splits option.splits prod.splits)

lemma same_delay: "delay c = 0 \<Longrightarrow> c\<lparr>delay := 0\<rparr> = c"
  by (cases c) simp

lemma poll_end:
  assumes "uart_rx c = []" "delay c = 0"
  shows "(case (if send_size c = 0 then next_block c else (0, 0, c)) of (a, dl, c1) \<Rightarrow> poll_receive a dl c1)
    = (if send_size c = 0 then (case next_block c of (a, dl, c1) \<Rightarrow> Ret (a, dl, c1\<lparr>delay := dl\<rparr>)) else Ret (0, 0, c))"
proof -
  obtain a dl c1 where n: "next_block c = (a, dl, c1)" by (cases "next_block c")
  have "uart_rx c1 = []" "delay c1 = 0" using next_block_frame [OF n] assms by simp_all
  then show ?thesis using n assms by (simp add: idle_receive same_delay)
qed

lemma poll_escape:
  assumes "delay c = 0" "uart_rx c = []" "send_slip_escape c = e" "e \<noteq> 0" "send_size c \<noteq> 0"
  defines "c1 \<equiv> c\<lparr>uart_tx := uart_tx c @ [e], send_slip_escape := 0, send_size := send_size c - 1\<rparr>"
  shows "ubcsp_poll c = (if send_size c1 = 0 then (case next_block c1 of (a, dl, c2) \<Rightarrow> Ret (a, dl, c2\<lparr>delay := dl\<rparr>)) else Ret (0, 0, c1))"
proof -
  have "ubcsp_poll c = (case (if send_size c1 = 0 then next_block c1 else (0, 0, c1)) of (a, dl, c2) \<Rightarrow> poll_receive a dl c2)"
    using assms(1-5) by (simp add: ubcsp_poll_def poll_block_def send_octet_def put_uart_def c1_def)
  also have "\<dots> = (if send_size c1 = 0 then (case next_block c1 of (a, dl, c2) \<Rightarrow> Ret (a, dl, c2\<lparr>delay := dl\<rparr>)) else Ret (0, 0, c1))"
    by (rule poll_end) (simp_all add: c1_def assms(1,2))
  finally show ?thesis .
qed

lemma poll_plain:
  assumes "delay c = 0" "uart_rx c = []" "send_slip_escape c = 0" "send_ptr c = Some (v # p)" "send_size c \<noteq> 0"
    and v: "v \<noteq> SLIP_FRAME" "v \<noteq> SLIP_ESCAPE"
  defines "c1 \<equiv> after_octets [v] p c"
  shows "ubcsp_poll c = (if send_size c1 = 0 then (case next_block c1 of (a, dl, c2) \<Rightarrow> Ret (a, dl, c2\<lparr>delay := dl\<rparr>)) else Ret (0, 0, c1))"
proof -
  have "ubcsp_poll c = (case (if send_size c1 = 0 then next_block c1 else (0, 0, c1)) of (a, dl, c2) \<Rightarrow> poll_receive a dl c2)"
    using assms(1-7) by (simp add: ubcsp_poll_def poll_block_def send_octet_def ubcsp_put_slip_uart_def put_uart_def c1_def after_octets_def slip_def)
  also have "\<dots> = (if send_size c1 = 0 then (case next_block c1 of (a, dl, c2) \<Rightarrow> Ret (a, dl, c2\<lparr>delay := dl\<rparr>)) else Ret (0, 0, c1))"
    by (rule poll_end) (simp_all add: c1_def after_octets_def assms(1,2))
  finally show ?thesis .
qed

lemma polls_octet:
  assumes "delay c = 0" "uart_rx c = []" "send_slip_escape c = 0" "send_ptr c = Some (v # p)" "0 < send_size c"
  shows "polls (length (slip v)) c =
    (if send_size c = 1 then block_sent (after_octets [v] p c) else Ret (0, after_octets [v] p c))"
proof (cases "v = SLIP_FRAME \<or> v = SLIP_ESCAPE")
  case True
  define e where "e = (if v = SLIP_FRAME then SLIP_ESCAPE_FRAME else SLIP_ESCAPE_ESCAPE)"
  define c1 where "c1 = c\<lparr>send_ptr := Some p, send_crc := ubcsp_calc_crc v (send_crc c),
      uart_tx := uart_tx c @ [SLIP_ESCAPE], send_slip_escape := e\<rparr>"
  have sl: "slip v = [SLIP_ESCAPE, e]" "e \<noteq> 0" using True by (auto simp: slip_def e_def)
  have 1: "ubcsp_poll c = Ret (0, 0, c1)"
    using assms True
    by (auto simp: ubcsp_poll_def poll_block_def send_octet_def ubcsp_put_slip_uart_def put_uart_def c1_def e_def
        poll_receive_def same_delay)
  have 2: "delay c1 = 0" "uart_rx c1 = []" "send_slip_escape c1 = e" "send_size c1 \<noteq> 0" "send_size c1 = send_size c"
    using assms by (simp_all add: c1_def)
  have 3: "c1\<lparr>uart_tx := uart_tx c1 @ [e], send_slip_escape := 0, send_size := send_size c1 - 1\<rparr> = after_octets [v] p c"
    using assms by (cases c) (simp add: c1_def after_octets_def sl)
  have "ubcsp_poll c1 = (if send_size c = 1 then (case next_block (after_octets [v] p c) of (a, dl, c2) \<Rightarrow> Ret (a, dl, c2\<lparr>delay := dl\<rparr>))
      else Ret (0, 0, after_octets [v] p c))"
    using poll_escape [OF 2(1-3) sl(2) 2(4)] unfolding 3 by (simp add: after_octets_def)
  then show ?thesis
    by (simp add: sl 1 numeral_2_eq_2 block_sent_def split: prod.split)
next
  case False
  then have "slip v = [v]" by (simp add: slip_def)
  then show ?thesis
    using poll_plain [OF assms(1-4)] assms(5) False by (simp add: block_sent_def after_octets_def split: prod.split)
qed

lemma after_octets_Cons: "after_octets (w # vs) rest c = after_octets vs rest (after_octets [w] xs c)"
  by (simp add: after_octets_def)

lemma after_octets_fields [simp]:
  "delay (after_octets vs r c) = delay c" "uart_rx (after_octets vs r c) = uart_rx c"
  "send_slip_escape (after_octets vs r c) = send_slip_escape c" "send_ptr (after_octets vs r c) = Some r"
  "send_size (after_octets vs r c) = send_size c - int (length vs)"
  by (simp_all add: after_octets_def)

lemma polls_block:
  assumes "delay c = 0" "uart_rx c = []" "send_slip_escape c = 0" "send_ptr c = Some (vs @ rest)"
    and "send_size c = int (length vs)" and "vs \<noteq> []"
  shows "polls (length (slips vs)) c = block_sent (after_octets vs rest c)"
  using assms
proof (induction vs arbitrary: c)
  case (Cons v vs)
  let ?c = "after_octets [v] (vs @ rest) c"
  show ?case
  proof (cases "vs = []")
    case True
    then show ?thesis using Cons.prems polls_octet [of c v "vs @ rest"] by simp
  next
    case False
    have 1: "polls (length (slip v)) c = Ret (0, ?c)"
      using Cons.prems False polls_octet [of c v "vs @ rest"] by simp
    have 2: "polls (length (slips vs)) ?c = block_sent (after_octets vs rest ?c)"
      using Cons.prems False by (intro Cons.IH) simp_all
    obtain a c2 where "block_sent (after_octets vs rest ?c) = Ret (a, c2)"
      by (cases "next_block (after_octets vs rest ?c)") (simp add: block_sent_def)
    with polls_add [OF 1] 2 show ?thesis
      by (simp add: after_octets_Cons [of v vs rest c "vs @ rest"])
  qed
qed simp

text \<open>A packet that is set up is sent as header, payload and checksum, and its frame is closed.\<close>

definition packet_sent :: "byte list \<Rightarrow> u16 \<Rightarrow> ubcsp_configuration \<Rightarrow> ubcsp_configuration" where
  "packet_sent out crc c = (snd (ubcsp_sent_packet c))\<lparr>send_ptr := None, send_size := 0, next_send_ptr := None, next_send_size := 0,
     need_send_crc := False, send_crc := crc, uart_tx := uart_tx c @ out, delay := UBCSP_POLL_TIME_DELAY\<rparr>"

lemma last_block:
  assumes "delay c = 0" "uart_rx c = []" "send_slip_escape c = 0" "send_ptr c = Some crc2" "send_size c = 2" "length crc2 = 2"
    and "next_send_ptr c = None" "next_send_size c = 0" "\<not> need_send_crc c"
  shows "polls (length (slips crc2)) c
    = Ret (fst (ubcsp_sent_packet c), packet_sent (slips crc2 @ [SLIP_FRAME]) (crc_fold crc2 (send_crc c)) c)"
proof -
  have "polls (length (slips crc2)) c = block_sent (after_octets crc2 [] c)"
    by (rule polls_block) (use assms in auto)
  also have "\<dots> = Ret (fst (ubcsp_sent_packet c), packet_sent (slips crc2 @ [SLIP_FRAME]) (crc_fold crc2 (send_crc c)) c)"
    using assms by (cases c) (simp add: block_sent_def next_block_def after_octets_def put_uart_def ubcsp_sent_packet_def
        packet_sent_def split: option.split)
  finally show ?thesis .
qed

lemma crc_block:
  assumes "send_ptr c = Some vs" "next_send_ptr c = None" "need_send_crc c" "delay c = 0"
  shows "block_sent c = Ret (0, c\<lparr>send_ptr := Some (let crc = ubcsp_crc_reverse (send_crc c) in [ucast (drop_bit 8 crc), ucast crc]),
    send_size := 2, next_send_ptr := None, next_send_size := 0, need_send_crc := False, send_crc := ubcsp_crc_reverse (send_crc c)\<rparr>)"
  using assms by (cases c) (simp add: block_sent_def next_block_def Let_def)

lemma payload_block:
  assumes "next_send_ptr c = Some q" "delay c = 0"
  shows "block_sent c = Ret (0, c\<lparr>send_ptr := Some q, send_size := next_send_size c, next_send_ptr := None, next_send_size := 0\<rparr>)"
  using assms by (cases c) (simp add: block_sent_def next_block_def Let_def)

lemma polls_frame:
  assumes "delay c = 0" "uart_rx c = []" "send_slip_escape c = 0" "send_ptr c = Some h" "send_size c = 4" "length h = 4"
    and "next_send_ptr c = Some q" "next_send_size c = int n" "0 < n" "n \<le> length q" "need_send_crc c" "send_crc c = 0xffff"
  defines "body \<equiv> h @ take n q @ crc_octets (h @ take n q)"
  shows "\<exists>crc. polls (length (slips body)) c = Ret (fst (ubcsp_sent_packet c), packet_sent (slips body @ [SLIP_FRAME]) crc c)"
proof -
  let ?c1 = "(after_octets h [] c)\<lparr>send_ptr := Some q, send_size := int n, next_send_ptr := None, next_send_size := 0\<rparr>"
  let ?c2 = "after_octets (take n q) (drop n q) ?c1"
  let ?crc = "crc_octets (h @ take n q)"
  let ?c3 = "?c2\<lparr>send_ptr := Some ?crc, send_size := 2, next_send_ptr := None, next_send_size := 0, need_send_crc := False,
      send_crc := ubcsp_crc_reverse (send_crc ?c2)\<rparr>"
  have 1: "polls (length (slips h)) c = Ret (0, ?c1)"
  proof -
    have "polls (length (slips h)) c = block_sent (after_octets h [] c)"
      by (rule polls_block) (use assms in auto)
    also have "\<dots> = Ret (0, ?c1)" using assms by (subst payload_block [where q = q]) (simp_all add: after_octets_def)
    finally show ?thesis .
  qed
  have 2: "polls (length (slips (take n q))) ?c1 = Ret (0, ?c3)"
  proof -
    have "polls (length (slips (take n q))) ?c1 = block_sent ?c2"
      by (rule polls_block) (use assms in auto)
    also have "\<dots> = Ret (0, ?c3)"
      using assms by (subst crc_block [where vs = "drop n q"]) (simp_all add: after_octets_def crc_octets_def)
    finally show ?thesis .
  qed
  have 3: "polls (length (slips ?crc)) ?c3
      = Ret (fst (ubcsp_sent_packet ?c3), packet_sent (slips ?crc @ [SLIP_FRAME]) (crc_fold ?crc (send_crc ?c3)) ?c3)"
    by (rule last_block) (use assms in \<open>simp_all add: crc_octets_def Let_def\<close>)
  have 4: "fst (ubcsp_sent_packet ?c3) = fst (ubcsp_sent_packet c)"
    "packet_sent (slips ?crc @ [SLIP_FRAME]) r ?c3 = packet_sent (slips body @ [SLIP_FRAME]) r c" for r
    by (cases c, simp add: ubcsp_sent_packet_def packet_sent_def after_octets_def body_def split: option.split)+
  have "polls (length (slips h) + (length (slips (take n q)) + length (slips ?crc))) c
      = Ret (0 OR (0 OR fst (ubcsp_sent_packet ?c3)), packet_sent (slips ?crc @ [SLIP_FRAME]) (crc_fold ?crc (send_crc ?c3)) ?c3)"
    by (rule polls_add [OF 1 polls_add [OF 2 3]])
  then show ?thesis unfolding 4 by (auto simp: body_def add.assoc)
qed

lemma setup_fields [simp]:
  "length (send_header p c) = 4" "length (ack_header c) = 4" "length ubcsp_send_le_header = 4"
  by (simp_all add: send_header_def ack_header_def ubcsp_send_le_header_def)

text \<open>An engine with a packet to send, nothing in transmission and no link establishment to do.\<close>

definition ready_to_send :: "ubcsp_packet \<Rightarrow> ubcsp_configuration \<Rightarrow> bool" where
  "ready_to_send p c \<longleftrightarrow> delay c = 0 \<and> send_size c = 0 \<and> send_slip_escape c = 0 \<and> uart_rx c = []
     \<and> link_establishment_packet c = Le_None \<and> \<not> bit (link_establishment_resp c) 1 \<and> send_packet c = Some p"

lemma poll_starts:
  assumes "ready_to_send p c"
  shows "ubcsp_poll c = Ret (0, 0, c\<lparr>uart_tx := uart_tx c @ [SLIP_FRAME], send_ptr := Some (sealed (send_header p c)), send_size := 4,
     next_send_ptr := payload p, next_send_size := int (unat (pk_length p)), send_crc := 0xffff, need_send_crc := True, send_ack := False\<rparr>)"
proof -
  have "send_header p (put_uart SLIP_FRAME c) = send_header p c" by (simp add: send_header_def put_uart_def)
  then show ?thesis
    using assms by (cases c) (simp add: ready_to_send_def ubcsp_poll_def poll_idle_def ubcsp_setup_packet_def sealed_def put_uart_def poll_receive_def)
qed

text \<open>
  C14: polling sends a packet that was handed to the engine: after as many polls as the
  frame has octets, less one, exactly the frame is on the line, that is the escaped header
  with the sequence and acknowledgement numbers, the payload and the checksum between two
  frame marks. A packet that is not reliable is then released and reported as sent; a
  reliable one stays to be sent again until it is acknowledged.
\<close>

theorem poll_sends_frame:
  assumes "ready_to_send p c" and "payload p = Some q" and "0 < unat (pk_length p)" and "unat (pk_length p) \<le> length q"
  defines "out \<equiv> frame (sealed (send_header p c)) (take (unat (pk_length p)) q)"
  shows "\<exists>c'. polls (length out - 1) c = Ret (if reliable p = 0 then UBCSP_PACKET_SENT else 0, c')
    \<and> uart_tx c' = uart_tx c @ out \<and> send_packet c' = (if reliable p = 0 then None else Some p) \<and> \<not> send_ack c'
    \<and> sequence_number c' = sequence_number c \<and> ack_number c' = ack_number c
    \<and> receive_packet c' = receive_packet c \<and> handed_back c' = handed_back c
    \<and> (reliable p \<noteq> 0 \<longrightarrow> ready_to_send p (c'\<lparr>delay := 0\<rparr>))"
proof -
  let ?h = "sealed (send_header p c)" and ?n = "unat (pk_length p)"
  let ?body = "?h @ take ?n q @ crc_octets (?h @ take ?n q)"
  let ?c1 = "c\<lparr>uart_tx := uart_tx c @ [SLIP_FRAME], send_ptr := Some ?h, send_size := 4, next_send_ptr := payload p,
     next_send_size := int ?n, send_crc := 0xffff, need_send_crc := True, send_ack := False\<rparr>"
  have 1: "ubcsp_poll c = Ret (0, 0, ?c1)" by (rule poll_starts [OF assms(1)])
  obtain crc where 2: "polls (length (slips ?body)) ?c1 = Ret (fst (ubcsp_sent_packet ?c1), packet_sent (slips ?body @ [SLIP_FRAME]) crc ?c1)"
    using polls_frame [of ?c1 ?h q ?n] assms(1-4) by (auto simp: ready_to_send_def)
  define N where "N = length out - 1"
  define c' where "c' = packet_sent (slips ?body @ [SLIP_FRAME]) crc ?c1"
  have sp: "ubcsp_sent_packet ?c1 = (if reliable p = 0 then (UBCSP_PACKET_SENT, ?c1\<lparr>send_packet := None\<rparr>) else (0, ?c1))"
    using assms(1) by (simp add: ubcsp_sent_packet_def ready_to_send_def)
  have "N = Suc (length (slips ?body))" by (simp add: N_def out_def frame_def)
  then have run: "polls N c = Ret (if reliable p = 0 then UBCSP_PACKET_SENT else 0, c')"
    using 1 2 sp by (simp add: c'_def)
  have "uart_tx c' = uart_tx c @ out" by (simp add: c'_def packet_sent_def out_def frame_def)
  moreover have "send_packet c' = (if reliable p = 0 then None else Some p)" "\<not> send_ack c'"
    "sequence_number c' = sequence_number c" "ack_number c' = ack_number c" "receive_packet c' = receive_packet c"
    "handed_back c' = handed_back c" "reliable p \<noteq> 0 \<longrightarrow> ready_to_send p (c'\<lparr>delay := 0\<rparr>)"
    unfolding c'_def packet_sent_def sp using assms(1) by (simp_all add: ready_to_send_def)
  ultimately show ?thesis using run unfolding N_def by blast
qed

text \<open>
  C37: a packet of length 0 whose payload pointer is not null is never sent. The engine takes
  the non-null pointer for a block still to be sent, so neither the checksum nor the closing
  frame mark follows the header: the header is started again and again and the packet is
  never released.
\<close>

theorem empty_payload_never_sent:
  assumes "ready_to_send p c" and "payload p = Some q" and "pk_length p = 0"
  shows "\<exists>c'. polls (n * (1 + length (slips (sealed (send_header p c))))) c = Ret (0, c')
    \<and> uart_tx c' = uart_tx c @ concat (replicate n (SLIP_FRAME # slips (sealed (send_header p c))))
    \<and> ready_to_send p c'"
  using assms
proof (induction n arbitrary: c)
  case (Suc n)
  let ?h = "sealed (send_header p c)"
  let ?c1 = "c\<lparr>uart_tx := uart_tx c @ [SLIP_FRAME], send_ptr := Some ?h, send_size := 4, next_send_ptr := payload p,
     next_send_size := int (unat (pk_length p)), send_crc := 0xffff, need_send_crc := True, send_ack := False\<rparr>"
  let ?c2 = "(after_octets ?h [] ?c1)\<lparr>send_ptr := Some q, send_size := 0, next_send_ptr := None, next_send_size := 0\<rparr>"
  have 1: "ubcsp_poll c = Ret (0, 0, ?c1)" by (rule poll_starts [OF Suc.prems(1)])
  have "length ?h = 4" by simp
  then have h: "?h \<noteq> []" by fastforce
  have "polls (length (slips ?h)) ?c1 = block_sent (after_octets ?h [] ?c1)"
    by (rule polls_block) (use Suc.prems h in \<open>simp_all add: ready_to_send_def\<close>)
  also have "\<dots> = Ret (0, ?c2)"
    using Suc.prems by (subst payload_block [where q = q]) (simp_all add: after_octets_def ready_to_send_def)
  finally have 2: "polls (1 + length (slips ?h)) c = Ret (0, ?c2)" using 1 by simp
  have r: "ready_to_send p ?c2" "send_header p ?c2 = send_header p c" "uart_tx ?c2 = uart_tx c @ SLIP_FRAME # slips ?h"
    using Suc.prems(1) by (simp_all add: ready_to_send_def send_header_def after_octets_def)
  obtain c' where c': "polls (n * (1 + length (slips ?h))) ?c2 = Ret (0, c')" "ready_to_send p c'"
      "uart_tx c' = uart_tx ?c2 @ concat (replicate n (SLIP_FRAME # slips ?h))"
    using Suc.IH [OF r(1) Suc.prems(2,3)] unfolding r(2) by blast
  have "polls (Suc n * (1 + length (slips ?h))) c = Ret (0 OR 0, c')"
    unfolding mult_Suc by (rule polls_add [OF 2 c'(1)])
  moreover have "uart_tx c' = uart_tx c @ concat (replicate (Suc n) (SLIP_FRAME # slips ?h))" using c'(3) r(3) by simp
  ultimately show ?case using c'(2) by (intro exI [of _ c']) (simp only: or.right_neutral simp_thms)
qed simp

end
