(* ===== verification/UBCSP_Receive.thy ===== *)
theory UBCSP_Receive
  imports UBCSP_Send
begin

section \<open>What the engine takes from the line\<close>

text \<open>
  The receiving half of \<open>ubcsp_poll\<close> on the frames of the sending half: unescaping, the header
  fields, the checks, and the delivery of a packet to the caller.
\<close>

subsection \<open>Receiving\<close>

lemma same_escape: "\<not> receive_slip_escape c \<Longrightarrow> c\<lparr>receive_slip_escape := False\<rparr> = c"
  by (cases c) simp

lemma receive_slip:
  assumes "\<not> receive_slip_escape c" and "receive_packet c \<noteq> None"
  shows "receive_loop (slip v @ vs) a c = run_bind (store_octet v c) (\<lambda>c1. receive_loop vs a c1)"
  using assms
  by (auto simp: slip_def receive_octet_def tbl_def ubcsp_deslip_def same_escape run_bind_assoc)

lemma receive_header_octets:
  assumes "\<not> receive_slip_escape c" "receive_packet c \<noteq> None" "receive_index c = int j - 4" "j + length hs \<le> 4" "length (receive_header c) = 4"
  shows "receive_loop (slips hs @ vs) a c = receive_loop vs a
    (c\<lparr>receive_header := take j (receive_header c) @ hs @ drop (j + length hs) (receive_header c), receive_index := int (j + length hs) - 4\<rparr>)"
  using assms
proof (induction hs arbitrary: c j)
  case Nil
  then show ?case by (cases c) simp
next
  case (Cons h hs)
  let ?c = "c\<lparr>receive_header := (receive_header c)[j := h], receive_index := int j - 3\<rparr>"
  have 1: "store_octet h c = Ret ?c" using Cons.prems by (simp add: store_octet_def)
  have 2: "receive_loop (slips hs @ vs) a ?c = receive_loop vs a (?c\<lparr>receive_header := take (Suc j) (receive_header ?c) @ hs
      @ drop (Suc j + length hs) (receive_header ?c), receive_index := int (Suc j + length hs) - 4\<rparr>)"
    using Cons.prems by (intro Cons.IH) simp_all
  have "take (Suc j) ((receive_header c)[j := h]) = take j (receive_header c) @ [h]"
    using Cons.prems by (simp add: take_Suc_conv_app_nth)
  then show ?case using Cons.prems 1 2 by (simp add: receive_slip)
qed

lemma receive_body_octets:
  assumes "\<not> receive_slip_escape c" "receive_packet c = Some p" "payload p = Some q" "receive_index c = int i"
    and "i + length bs \<le> unat (pk_length p)" "unat (pk_length p) \<le> length q"
  shows "receive_loop (slips bs @ vs) a c = receive_loop vs a
    (c\<lparr>receive_packet := Some (p\<lparr>payload := Some (take i q @ bs @ drop (i + length bs) q)\<rparr>), receive_index := int (i + length bs)\<rparr>)"
  using assms
proof (induction bs arbitrary: c p q i)
  case Nil
  then show ?case by (cases c, cases p) simp
next
  case (Cons b bs)
  let ?p = "p\<lparr>payload := Some (q[i := b])\<rparr>"
  let ?c = "c\<lparr>receive_packet := Some ?p, receive_index := int (Suc i)\<rparr>"
  have "int i < uint (pk_length p)" using Cons.prems(5) unfolding uint_nat of_nat_less_iff by simp
  then have 1: "store_octet b c = Ret ?c" using Cons.prems by (simp add: store_octet_def)
  have 2: "receive_loop (slips bs @ vs) a ?c = receive_loop vs a (?c\<lparr>receive_packet := Some (?p\<lparr>payload :=
      Some (take (Suc i) (q[i := b]) @ bs @ drop (Suc i + length bs) (q[i := b]))\<rparr>), receive_index := int (Suc i + length bs)\<rparr>)"
    using Cons.prems by (intro Cons.IH [where p = ?p]) simp_all
  have "take (Suc i) (q[i := b]) = take i q @ [b]"
    using Cons.prems by (simp add: take_Suc_conv_app_nth)
  then show ?case using Cons.prems 1 2 by (simp add: receive_slip)
qed

text \<open>A whole frame ends in the check of the packet it carried.\<close>

definition filled :: "byte list \<Rightarrow> byte list \<Rightarrow> ubcsp_packet \<Rightarrow> byte list \<Rightarrow> ubcsp_configuration \<Rightarrow> ubcsp_configuration" where
  "filled h bs p q c = c\<lparr>receive_header := h, receive_packet := Some (p\<lparr>payload := Some (bs @ drop (length bs) q)\<rparr>),
     receive_index := int (length bs)\<rparr>"

definition ready_to_receive :: "ubcsp_packet \<Rightarrow> byte list \<Rightarrow> ubcsp_configuration \<Rightarrow> bool" where
  "ready_to_receive p q c \<longleftrightarrow> receive_packet c = Some p \<and> payload p = Some q \<and> unat (pk_length p) \<le> length q
     \<and> \<not> receive_slip_escape c \<and> receive_index c = -4 \<and> length (receive_header c) = 4"

lemma same_index: "receive_index c = -4 \<Longrightarrow> c\<lparr>receive_index := -4\<rparr> = c"
  by (cases c) simp

lemma receive_frame:
  assumes "ready_to_receive p q c" and "length h = 4" and "length bs \<le> unat (pk_length p)"
  shows "receive_loop (SLIP_FRAME # slips (h @ bs) @ SLIP_FRAME # vs) a c
    = run_bind (end_of_frame a (filled h bs p q c)) (\<lambda>(a', c1). receive_loop vs a' c1)"
proof -
  note r = assms(1) [unfolded ready_to_receive_def]
  let ?c1 = "c\<lparr>receive_header := h, receive_index := 0\<rparr>"
  have "receive_loop (SLIP_FRAME # slips (h @ bs) @ SLIP_FRAME # vs) a c = receive_loop (slips h @ slips bs @ SLIP_FRAME # vs) a c"
    using r by (simp add: receive_octet_def end_of_frame_def same_index)
  also have "\<dots> = receive_loop (slips bs @ SLIP_FRAME # vs) a ?c1"
    using receive_header_octets [of c 0 h] r assms(2) by simp
  also have "\<dots> = receive_loop (SLIP_FRAME # vs) a (filled h bs p q c)"
    using receive_body_octets [of ?c1 p q 0 bs] r assms(3) by (simp add: filled_def)
  also have "\<dots> = run_bind (end_of_frame a (filled h bs p q c)) (\<lambda>(a', c1). receive_loop vs a' c1)"
    using r by (simp add: filled_def receive_octet_def)
  finally show ?thesis .
qed

lemma crc_octets_length [simp]: "length (crc_octets bs) = 2"
  by (simp add: crc_octets_def Let_def)

lemma check_crc_accepts: "check_crc h (bs @ crc_octets (h @ bs) @ rest) (length bs) = Ret True"
  by (simp add: check_crc_def crc_octets_def Let_def nth_append)

lemma check_packet_accepts:
  assumes "header_crc h" and "unat (header_length h) = length bs"
  shows "check_packet h (Some (bs @ crc_octets (h @ bs) @ rest)) (int (length bs) + 2) = Ret (Some (int (length bs)))"
  using assms check_crc_accepts [of h bs rest] uint_nat [of "header_length h"] by (simp add: check_packet_def)

subsection \<open>Headers\<close>

lemma mask_bits:
  "bit (0x07 :: byte) n \<longleftrightarrow> n < 3" "bit (0x0f :: byte) n \<longleftrightarrow> n < 4" "bit (0x38 :: byte) n \<longleftrightarrow> 3 \<le> n \<and> n < 6"
  "bit (0x40 :: byte) n \<longleftrightarrow> n = 6" "bit (0x80 :: byte) n \<longleftrightarrow> n = 7" "bit (0xf0 :: byte) n \<longleftrightarrow> 4 \<le> n \<and> n < 8"
proof -
  have m: "(0x07 :: byte) = mask 3" "(0x0f :: byte) = mask 4" "(0x38 :: byte) = push_bit 3 (mask 3)"
    "(0x40 :: byte) = push_bit 6 1" "(0x80 :: byte) = push_bit 7 1" "(0xf0 :: byte) = push_bit 4 (mask 4)"
    by (simp_all add: mask_eq_exp_minus_1)
  show "bit (0x07 :: byte) n \<longleftrightarrow> n < 3" "bit (0x0f :: byte) n \<longleftrightarrow> n < 4" "bit (0x38 :: byte) n \<longleftrightarrow> 3 \<le> n \<and> n < 6"
    "bit (0x40 :: byte) n \<longleftrightarrow> n = 6" "bit (0x80 :: byte) n \<longleftrightarrow> n = 7" "bit (0xf0 :: byte) n \<longleftrightarrow> 4 \<le> n \<and> n < 8"
    unfolding m bit_push_bit_iff bit_mask_iff bit_1_iff by auto
qed

lemma bit_below: "unat w < 2 ^ m \<Longrightarrow> bit w n \<Longrightarrow> n < m"
proof -
  assume "unat w < 2 ^ m" "bit w n"
  then have "bit (take_bit m (unat w)) n" by (simp add: take_bit_nat_eq_self bit_unsigned_iff)
  then show ?thesis by (simp add: bit_take_bit_iff)
qed

lemma bit_3word: "bit (x :: 3 word) n \<Longrightarrow> n < 3"
  using bit_imp_le_length [of x n] by simp

lemma header_decode:
  assumes "h = sealed (send_header p c)"
  shows "header_ok h" "header_crc h" "header_ack h = ucast (ack_number c)" "header_seq h = ucast (sequence_number c)"
    "reliable p \<in> {0, 1} \<Longrightarrow> drop_bit 7 (h ! 0 AND 0x80) = reliable p"
    "channel p < 16 \<Longrightarrow> h ! 1 AND 0x0f = channel p"
    "unat (pk_length p) < 4096 \<Longrightarrow> header_length h = pk_length p"
proof -
  let ?r = "reliable p" and ?a = "ack_number c" and ?s = "sequence_number c"
  have h0: "h ! 0 = push_bit 7 ?r OR 0x40 OR push_bit 3 (ucast ?a) OR ucast ?s"
    and h1: "h ! 1 = (channel p AND 0x0f) OR (ucast (push_bit 4 (pk_length p)) AND 0xf0)"
    and h2: "h ! 2 = ucast (drop_bit 4 (pk_length p))"
    and h3: "h ! 3 = NOT (h ! 0 + h ! 1 + h ! 2)"
    using assms by (simp_all add: sealed_def send_header_def)
  have "x + NOT x = 0xff" for x :: byte by (simp add: not_eq_complement)
  then show "header_ok h" by (simp add: header_ok_def h3 add.assoc [symmetric])
  have b: "bit (h ! 0) n \<longleftrightarrow> n < 8 \<and> (n = 7 \<and> bit ?r 0 \<or> n = 6 \<or> 3 \<le> n \<and> bit ?a (n - 3) \<or> bit ?s n)" for n
    unfolding h0 bit_or_iff bit_push_bit_iff mask_bits bit_ucast_iff by (auto dest: bit_3word bit_imp_le_length)
  have "bit (h ! 0 AND 0x40) 6" unfolding bit_and_iff mask_bits b by simp
  then show "header_crc h" unfolding header_crc_def by force
  show "header_ack h = ucast ?a" unfolding header_ack_def
    by (rule bit_eqI, unfold bit_drop_bit_eq comp_apply bit_and_iff mask_bits b bit_ucast_iff) (auto dest: bit_3word)
  show "header_seq h = ucast ?s" unfolding header_seq_def
    by (rule bit_eqI, unfold bit_and_iff mask_bits b bit_ucast_iff) (auto dest: bit_3word)
  show "?r \<in> {0, 1} \<Longrightarrow> drop_bit 7 (h ! 0 AND 0x80) = ?r"
    by (rule bit_eqI, unfold bit_drop_bit_eq comp_apply bit_and_iff mask_bits b) (auto dest: bit_3word simp: bit_1_iff)
  have c8: "bit (h ! 1) n \<longleftrightarrow> n < 4 \<and> bit (channel p) n \<or> 4 \<le> n \<and> n < 8 \<and> bit (pk_length p) (n - 4)" for n
    unfolding h1 bit_or_iff bit_and_iff mask_bits bit_ucast_iff bit_push_bit_iff by auto
  show "channel p < 16 \<Longrightarrow> h ! 1 AND 0x0f = channel p"
  proof -
    assume "channel p < 16"
    then have "unat (channel p) < 2 ^ 4" by (simp add: word_less_nat_alt)
    then have "bit (channel p) n \<Longrightarrow> n < 4" for n by (rule bit_below)
    then show ?thesis by (intro bit_eqI, unfold bit_and_iff mask_bits c8) auto
  qed
  show "unat (pk_length p) < 4096 \<Longrightarrow> header_length h = pk_length p"
  proof -
    assume "unat (pk_length p) < 4096"
    then have "unat (pk_length p) < 2 ^ 12" by simp
    then have "bit (pk_length p) n \<Longrightarrow> n - 4 < 8" for n using bit_below [of "pk_length p" 12 n] by fastforce
    then show ?thesis unfolding header_length_def h2
      by (intro bit_eqI, unfold bit_or_iff bit_ucast_iff bit_push_bit_iff bit_drop_bit_eq comp_apply bit_and_iff mask_bits c8) auto
  qed
qed

lemma take_ack_fields:
  assumes "take_ack k c = (a, c1)"
  shows "a \<in> {0, UBCSP_PACKET_SENT}" "ack_number c1 = ack_number c" "handed_back c1 = handed_back c" "receive_packet c1 = receive_packet c"
    "link_establishment_state c1 = link_establishment_state c" "send_ack c1 = send_ack c" "uart_rx c1 = uart_rx c"
    "receive_slip_escape c1 = receive_slip_escape c" "receive_header c1 = receive_header c"
    "send_packet c1 = (if k \<noteq> ucast (sequence_number c) \<and> (\<exists>p. send_packet c = Some p \<and> reliable p \<noteq> 0) then None else send_packet c)"
    "sequence_number c1 = sequence_number c + (if k \<noteq> ucast (sequence_number c) \<and> (\<exists>p. send_packet c = Some p \<and> reliable p \<noteq> 0) then 1 else 0)"
  using assms by (auto simp: take_ack_def split: if_splits option.splits)

lemma ucast3_eq: "(ucast (x :: 3 word) :: byte) = ucast y \<longleftrightarrow> x = y"
proof
  assume "(ucast x :: byte) = ucast y"
  then have "unat (ucast x :: byte) = unat (ucast y :: byte)" by simp
  moreover have "unat x < 8" "unat y < 8" using unsigned_less [of x] unsigned_less [of y] by simp_all
  ultimately show "x = y" by (simp add: unat_ucast_mod word_unat_eq_iff)
qed simp

text \<open>What an intact data packet does to an engine with an established link.\<close>

definition delivered :: "ubcsp_packet \<Rightarrow> 3 word \<Rightarrow> byte list \<Rightarrow> byte \<Rightarrow> ubcsp_configuration \<Rightarrow> ubcsp_configuration \<Rightarrow> bool" where
  "delivered p seq body a r r' \<longleftrightarrow>
     (if reliable p = 1 \<and> seq \<noteq> ack_number r
      then handed_back r' = handed_back r \<and> receive_packet r' \<noteq> None \<and> ack_number r' = ack_number r \<and> send_ack r'
         \<and> a AND UBCSP_PACKET_RECEIVED = 0
      else (\<exists>b rest. handed_back r' = handed_back r @ [b] \<and> channel b = channel p \<and> reliable b = reliable p
              \<and> pk_length b = pk_length p \<and> payload b = Some (body @ rest))
         \<and> receive_packet r' = None \<and> a AND UBCSP_PACKET_RECEIVED \<noteq> 0
         \<and> ack_number r' = ack_number r + (if reliable p = 1 then 1 else 0) \<and> (reliable p = 1 \<longrightarrow> send_ack r'))"

lemma delivered_cong:
  "handed_back r1 = handed_back r2 \<Longrightarrow> receive_packet r1 = receive_packet r2 \<Longrightarrow> ack_number r1 = ack_number r2 \<Longrightarrow>
   send_ack r1 = send_ack r2 \<Longrightarrow> delivered p seq body a r r1 = delivered p seq body a r r2"
  by (simp add: delivered_def)

lemma received_data:
  assumes "ready_to_receive b q r" and "link_establishment_state r = Le_Active"
    and "h = sealed (send_header p s)" "unat (pk_length p) = length body" "0 < length body" "length body < 4096"
    and "reliable p \<in> {0, 1}" "channel p < 16" "channel p \<noteq> 1"
  obtains a r' where "ubcsp_recevied_packet (filled h (body @ crc_octets (h @ body)) b q r) = Ret (a, r')"
    "delivered p (sequence_number s) body a r r'" "uart_rx r' = uart_rx r"
    "send_packet r' = (if ack_number s \<noteq> sequence_number r \<and> (\<exists>p. send_packet r = Some p \<and> reliable p \<noteq> 0) then None else send_packet r)"
proof -
  let ?bs = "body @ crc_octets (h @ body)" and ?rest = "drop (length body + 2) q"
  let ?c = "filled h ?bs b q r"
  let ?b = "b\<lparr>payload := Some (?bs @ ?rest), reliable := reliable p, channel := channel p\<rparr>"
  note dec = header_decode [OF assms(3)]
  have len: "header_length h = pk_length p" using dec(7) assms(4,6) by simp
  have "check_packet h (payload ?b) (2 + int (length body)) = Ret (Some (int (length body)))"
    using check_packet_accepts [OF dec(2), of body ?rest] len assms(4) by (simp add: add.commute)
  moreover obtain a c1 where t: "take_ack (ucast (ack_number s)) (?c\<lparr>receive_packet := Some ?b, receive_index := int (length body)\<rparr>) = (a, c1)"
    by (cases "take_ack (ucast (ack_number s)) (?c\<lparr>receive_packet := Some ?b, receive_index := int (length body)\<rparr>)")
  ultimately have run: "ubcsp_recevied_packet ?c = Ret (receive_data ?b (ucast (sequence_number s)) (pk_length p) a c1)"
    using dec assms(5-9) len by (simp add: ubcsp_recevied_packet_def accept_packet_def decode_header_def filled_def Let_def)
  note f = take_ack_fields [OF t]
  have g: "ack_number c1 = ack_number r" "handed_back c1 = handed_back r" "receive_packet c1 = Some ?b" "uart_rx c1 = uart_rx r"
      "link_establishment_state c1 = Le_Active"
    using f assms(2) by (simp_all add: filled_def ucast3_eq)
  have g6: "send_packet c1 = (if ack_number s \<noteq> sequence_number r \<and> (\<exists>p. send_packet r = Some p \<and> reliable p \<noteq> 0) then None else send_packet r)"
    unfolding f(10) by (auto simp: filled_def ucast3_eq)
  obtain a' r' where d: "receive_data ?b (ucast (sequence_number s)) (pk_length p) a c1 = (a', r')" by fastforce
  have a: "a AND UBCSP_PACKET_RECEIVED = 0" "(a OR UBCSP_PACKET_RECEIVED) AND UBCSP_PACKET_RECEIVED \<noteq> 0"
    "(a OR (UBCSP_PACKET_RECEIVED OR UBCSP_PACKET_ACK)) AND UBCSP_PACKET_RECEIVED \<noteq> 0" using f(1) by auto
  have "delivered p (sequence_number s) body a' r r'" "uart_rx r' = uart_rx r" "send_packet r' = send_packet c1"
    using d assms(7) a by (auto simp: delivered_def receive_data_def hand_back_def g ucast3_eq split: if_splits)
  with run d g6 show thesis by (intro that [of a' r']) simp_all
qed

text \<open>Polling an engine that finds one whole frame.\<close>

lemma poll_frame:
  assumes "ready_to_receive b q r" and "0 < delay r" and "length h = 4" and "length bs \<le> unat (pk_length b)"
    and "uart_rx r = SLIP_FRAME # slips (h @ bs) @ [SLIP_FRAME]" and "ubcsp_recevied_packet (filled h bs b q r) = Ret (a, r')"
  obtains d where "ubcsp_poll r = Ret (a, d, r'\<lparr>receive_index := -4, uart_rx := [], delay := d\<rparr>)"
proof -
  define r2 where "r2 = (if a AND UBCSP_PACKET_ACK \<noteq> 0 then r'\<lparr>delay := 0\<rparr> else r')\<lparr>receive_index := -4\<rparr>"
  have "0 \<le> receive_index (filled h bs b q r)" by (simp add: filled_def)
  then have e: "end_of_frame 0 (filled h bs b q r) = Ret (a, r2)" using assms(6) by (simp add: end_of_frame_def r2_def)
  have "receive_loop (uart_rx r) 0 r = run_bind (end_of_frame 0 (filled h bs b q r)) (\<lambda>(a', c1). receive_loop [] a' c1)"
    unfolding assms(5) using receive_frame [OF assms(1,3,4), of "[]" 0] by simp
  then have l: "receive_loop (uart_rx r) 0 r = Ret (a, r2\<lparr>uart_rx := []\<rparr>)" by (simp add: e)
  define d where "d = (if delay r2 > 0 then delay r2 - 1 else 0)"
  have "ubcsp_poll r = Ret (a, d, r2\<lparr>uart_rx := [], delay := d\<rparr>)"
    using assms(2) l by (simp add: ubcsp_poll_def poll_receive_def d_def Let_def)
  also have "r2\<lparr>uart_rx := [], delay := d\<rparr> = r'\<lparr>receive_index := -4, uart_rx := [], delay := d\<rparr>" by (simp add: r2_def)
  finally show thesis by (rule that)
qed

text \<open>
  C15: a frame is delivered exactly once and intact. An engine that waits with an established
  link and a buffer that is large enough takes the frame of a data packet from the UART and
  hands the packet to its caller with the same channel, reliability, length and payload. A
  reliable packet whose sequence number is not the expected one, such as a retransmission,
  is not delivered again but only acknowledged. The acknowledgement number in the frame
  releases the reliable packet the receiver was sending itself when it differs from that
  packet's sequence number.
\<close>

theorem frame_delivered:
  assumes "ready_to_receive b q r" and "link_establishment_state r = Le_Active" and "0 < delay r"
    and "uart_rx r = frame (sealed (send_header p s)) body"
    and "unat (pk_length p) = length body" and "0 < length body" and "length body < 4096"
    and "length body + 2 \<le> unat (pk_length b)"
    and "reliable p \<in> {0, 1}" and "channel p < 16" and "channel p \<noteq> 1"
  shows "\<exists>a d r'. ubcsp_poll r = Ret (a, d, r') \<and> delivered p (sequence_number s) body a r r' \<and> uart_rx r' = []
    \<and> send_packet r' = (if ack_number s \<noteq> sequence_number r \<and> (\<exists>p. send_packet r = Some p \<and> reliable p \<noteq> 0)
                          then None else send_packet r)"
proof -
  let ?h = "sealed (send_header p s)"
  let ?bs = "body @ crc_octets (?h @ body)"
  obtain a r' where 1: "ubcsp_recevied_packet (filled ?h ?bs b q r) = Ret (a, r')" "delivered p (sequence_number s) body a r r'"
    "send_packet r' = (if ack_number s \<noteq> sequence_number r \<and> (\<exists>p. send_packet r = Some p \<and> reliable p \<noteq> 0) then None else send_packet r)"
    by (rule received_data [OF assms(1,2) refl assms(5-7,9-11)])
  have len: "length ?bs \<le> unat (pk_length b)" "length ?h = 4" using assms(8) by simp_all
  have rx: "uart_rx r = SLIP_FRAME # slips (?h @ ?bs) @ [SLIP_FRAME]" using assms(4) by (simp add: frame_def)
  obtain d where p: "ubcsp_poll r = Ret (a, d, r'\<lparr>receive_index := -4, uart_rx := [], delay := d\<rparr>)"
    by (rule poll_frame [OF assms(1,3) len(2,1) rx 1(1)])
  moreover have "delivered p (sequence_number s) body a r (r'\<lparr>receive_index := -4, uart_rx := [], delay := d\<rparr>)"
    by (rule delivered_cong [THEN iffD2, OF _ _ _ _ 1(2)]) simp_all
  ultimately show ?thesis
    using 1(3) by (intro exI [of _ a] exI [of _ d] exI [of _ "r'\<lparr>receive_index := -4, uart_rx := [], delay := d\<rparr>"]) simp
qed

end
