(* ===== verification/UBCSP_Engine.thy ===== *)
theory UBCSP_Engine
  imports UBCSP_Receive
begin

section \<open>The engine as a whole\<close>

text \<open>
  The invariant of the engine, kept by everything its caller can do, and the memory safety
  of \<open>ubcsp_poll\<close> that follows from it, with the one access it does not cover; and the witnesses
  of the theorems on sending and receiving.
\<close>

subsection \<open>No access outside an object\<close>

text \<open>
  What the engine keeps: pointers have as many octets as are still to be read through them,
  buffers are as long as their length fields say, and the octets received fit them.
\<close>

definition block_ok :: "byte list option \<Rightarrow> int \<Rightarrow> bool" where
  "block_ok ptr n \<longleftrightarrow> 0 \<le> n \<and> (0 < n \<longrightarrow> (\<exists>bs. ptr = Some bs \<and> n \<le> int (length bs)))"

definition sendable :: "ubcsp_packet \<Rightarrow> bool" where
  "sendable p \<longleftrightarrow> block_ok (payload p) (int (unat (pk_length p)))"

definition receivable :: "ubcsp_packet \<Rightarrow> bool" where
  "receivable p \<longleftrightarrow> (\<exists>q. payload p = Some q \<and> unat (pk_length p) \<le> length q \<and> 4 \<le> length q)"

definition send_inv :: "ubcsp_configuration \<Rightarrow> bool" where
  "send_inv c \<longleftrightarrow> block_ok (send_ptr c) (send_size c - (if send_slip_escape c \<noteq> 0 then 1 else 0)) \<or> send_size c = 0"

definition ubcsp_inv :: "ubcsp_configuration \<Rightarrow> bool" where
  "ubcsp_inv c \<longleftrightarrow> 0 \<le> send_size c \<and> send_inv c \<and> block_ok (next_send_ptr c) (next_send_size c)
     \<and> (\<forall>p. send_packet c = Some p \<longrightarrow> sendable p)
     \<and> (\<forall>p. receive_packet c = Some p \<longrightarrow> receivable p \<and> receive_index c \<le> int (unat (pk_length p)))
     \<and> -4 \<le> receive_index c \<and> link_establishment_resp c \<le> 2 \<and> length (receive_header c) = 4"

lemma le_same_returns: "length xs \<le> length p \<Longrightarrow> \<exists>m. le_same p xs = Ret m"
  by (induction p xs rule: le_same.induct) auto

lemma le_search_returns: "\<forall>b \<in> set bs. length b \<le> length p \<Longrightarrow> \<exists>w. le_search bs i p = Ret w"
proof (induction bs arbitrary: i)
  case (Cons b bs)
  then obtain m where "le_same p b = Ret m" using le_same_returns by force
  with Cons show ?case by simp
qed simp

lemma which_returns: "4 \<le> length q \<Longrightarrow> \<exists>w. ubcsp_which_le_payload q = Ret w"
  unfolding ubcsp_which_le_payload_def by (rule le_search_returns) (simp add: ubcsp_le_buffer_def)

lemma check_packet_returns:
  assumes "index \<le> int (length q)"
  shows "\<exists>x. check_packet h (Some q) index = Ret x \<and> (x = None \<or> x = Some index \<or> x = Some (index - 2) \<and> 2 \<le> index)"
proof (cases "header_crc h \<and> int (unat (header_length h)) + 2 = index")
  case True
  then have i: "2 \<le> index" by (metis add.commute le_add_same_cancel1 of_nat_0_le_iff)
  then have "nat (index - 2) + 2 \<le> length q" using assms by linarith
  then obtain ok where "check_crc h q (nat (index - 2)) = Ret ok" by (simp add: check_crc_def Let_def)
  then show ?thesis using True i by (simp add: check_packet_def)
next
  case False
  then show ?thesis by (cases "header_crc h") (auto simp: check_packet_def Let_def)
qed

lemma take_ack_inv: "ubcsp_inv c \<Longrightarrow> take_ack k c = (a, c') \<Longrightarrow> ubcsp_inv c' \<and> receive_packet c' = receive_packet c"
  by (auto simp: take_ack_def ubcsp_inv_def send_inv_def split: if_splits option.splits)

lemma receive_le_inv:
  assumes "ubcsp_inv c"
  shows "ubcsp_inv (snd (receive_le w a c))"
proof -
  have "ubcsp_inv (c\<lparr>link_establishment_resp := n\<rparr>)" if "n \<le> 2" for n
    using assms that by (simp add: ubcsp_inv_def send_inv_def)
  moreover have "ubcsp_inv (ubcsp_initialize c)" "ubcsp_inv (c\<lparr>link_establishment_state := st\<rparr>)"
    "ubcsp_inv (c\<lparr>link_establishment_state := st, send_size := 0\<rparr>)" for st
    using assms by (auto simp: ubcsp_inv_def send_inv_def ubcsp_initialize_def)
  ultimately show ?thesis using assms by (simp add: receive_le_def)
qed

lemma receive_data_inv: "ubcsp_inv c \<Longrightarrow> ubcsp_inv (snd (receive_data p seq len a c))"
  by (simp add: receive_data_def ubcsp_inv_def send_inv_def hand_back_def)

lemma receive_le_escape: "receive_slip_escape (snd (receive_le w a c)) = receive_slip_escape c"
  by (simp add: receive_le_def ubcsp_initialize_def)

lemma receive_data_escape: "receive_slip_escape (snd (receive_data p seq len a c)) = receive_slip_escape c"
  by (simp add: receive_data_def hand_back_def)

lemma accept_safe:
  assumes "ubcsp_inv c" and "payload p = Some q" "4 \<le> length q"
  shows "\<exists>a c'. accept_packet h p index c = Ret (a, c') \<and> ubcsp_inv c' \<and> receive_slip_escape c' = receive_slip_escape c"
proof -
  obtain a c1 where t: "take_ack (header_ack h) c = (a, c1)" by fastforce
  have inv: "ubcsp_inv c1" "ubcsp_inv (c1\<lparr>delay := 0\<rparr>)" "receive_slip_escape c1 = receive_slip_escape c"
    using take_ack_inv [OF assms(1) t] take_ack_fields(8) [OF t] by (simp_all add: ubcsp_inv_def send_inv_def)
  obtain w where "ubcsp_which_le_payload q = Ret w" using which_returns [OF assms(3)] by blast
  moreover obtain a2 c2 where "receive_le w a (c1\<lparr>delay := 0\<rparr>) = (a2, c2)" by fastforce
  moreover have "ubcsp_inv c2" "receive_slip_escape c2 = receive_slip_escape c"
    using receive_le_inv [OF inv(2), of w a] receive_le_escape [of w a "c1\<lparr>delay := 0\<rparr>"] calculation(2) inv(3) by simp_all
  moreover obtain a3 c3 where "receive_data p (header_seq h) (header_length h) a c1 = (a3, c3)" by fastforce
  moreover have "ubcsp_inv c3" "receive_slip_escape c3 = receive_slip_escape c"
    using receive_data_inv [OF inv(1), of p "header_seq h" "header_length h" a] calculation(5) inv(3)
      receive_data_escape [of p "header_seq h" "header_length h" a c1] by simp_all
  ultimately show ?thesis using t assms(2) inv by (simp add: accept_packet_def)
qed

lemma received_packet_safe:
  assumes "ubcsp_inv c" and "receive_packet c = Some p0" and "0 \<le> receive_index c"
  shows "\<exists>a c'. ubcsp_recevied_packet c = Ret (a, c') \<and> ubcsp_inv c' \<and> receive_slip_escape c' = receive_slip_escape c"
proof (cases "header_ok (receive_header c)")
  case False
  then show ?thesis using assms(1) by (simp add: ubcsp_recevied_packet_def ubcsp_inv_def send_inv_def)
next
  case True
  define h p where "h = receive_header c" and "p = decode_header h p0"
  define c1 where "c1 = c\<lparr>receive_packet := Some p\<rparr>"
  obtain q where q: "payload p = Some q" "unat (pk_length p0) \<le> length q" "4 \<le> length q"
    and i: "receive_index c \<le> int (unat (pk_length p0))"
    using assms(1,2) by (auto simp: ubcsp_inv_def receivable_def p_def decode_header_def)
  have inv: "ubcsp_inv c1" using assms(1,2) by (auto simp: c1_def p_def decode_header_def ubcsp_inv_def send_inv_def receivable_def)
  have "receive_index c \<le> int (length q)" using i q(2) by linarith
  from check_packet_returns [OF this, of h] obtain x where x: "check_packet h (payload p) (receive_index c) = Ret x"
      "x = None \<or> x = Some (receive_index c) \<or> x = Some (receive_index c - 2) \<and> 2 \<le> receive_index c"
    by (auto simp: q(1))
  have e: "ubcsp_recevied_packet c = (case x of None \<Rightarrow> Ret (0, c1\<lparr>send_ack := True\<rparr>)
     | Some index \<Rightarrow> accept_packet h p index (c1\<lparr>receive_index := index\<rparr>))"
    using True assms(2) x(1) unfolding c1_def by (simp add: ubcsp_recevied_packet_def Let_def h_def [symmetric] p_def [symmetric])
  show ?thesis
  proof (cases x)
    case None
    then show ?thesis using e inv by (simp add: ubcsp_inv_def send_inv_def c1_def)
  next
    case (Some index)
    have "-4 \<le> index" "index \<le> receive_index c" using x(2) Some assms(3) by auto
    then have "ubcsp_inv (c1\<lparr>receive_index := index\<rparr>)" using inv by (auto simp: ubcsp_inv_def send_inv_def c1_def)
    from accept_safe [OF this q(1,3), of h index] e Some show ?thesis by (auto simp: c1_def)
  qed
qed

lemma store_octet_safe:
  assumes "ubcsp_inv c" and "receive_packet c \<noteq> None"
  shows "\<exists>c'. store_octet v c = Ret c' \<and> ubcsp_inv c' \<and> receive_packet c' \<noteq> None \<and> receive_slip_escape c' = receive_slip_escape c"
proof -
  obtain p q where p: "receive_packet c = Some p" "payload p = Some q" "unat (pk_length p) \<le> length q" "4 \<le> length q"
      "receive_index c \<le> int (unat (pk_length p))" "-4 \<le> receive_index c"
    using assms by (auto simp: ubcsp_inv_def receivable_def)
  consider "receive_index c < 0" | "0 \<le> receive_index c" "receive_index c < int (unat (pk_length p))"
    | "0 \<le> receive_index c" "\<not> receive_index c < int (unat (pk_length p))" by linarith
  then show ?thesis
  proof cases
    case 1
    then have "receive_index c + 1 \<le> uint (pk_length p)" using uint_ge_0 [of "pk_length p"] by linarith
    with 1 show ?thesis using assms(1) p by (simp add: store_octet_def ubcsp_inv_def send_inv_def receivable_def)
  next
    case 2
    have "nat (receive_index c) < length q" using 2 p(3) by linarith
    then show ?thesis using 2 assms(1) p by (simp add: store_octet_def ubcsp_inv_def send_inv_def receivable_def)
  next
    case 3
    then show ?thesis using assms p by (simp add: store_octet_def)
  qed
qed

lemma end_of_frame_safe:
  assumes "ubcsp_inv c" and "receive_packet c \<noteq> None"
  shows "\<exists>a' c'. end_of_frame a c = Ret (a', c') \<and> ubcsp_inv c' \<and> receive_slip_escape c' = receive_slip_escape c"
proof (cases "0 \<le> receive_index c")
  case True
  obtain p where "receive_packet c = Some p" using assms(2) by blast
  from received_packet_safe [OF assms(1) this True] obtain b c1 where
    "ubcsp_recevied_packet c = Ret (b, c1)" "ubcsp_inv c1" "receive_slip_escape c1 = receive_slip_escape c" by blast
  then show ?thesis using True by (auto simp: end_of_frame_def Let_def ubcsp_inv_def send_inv_def)
next
  case False
  then show ?thesis using assms(1) by (auto simp: end_of_frame_def ubcsp_inv_def send_inv_def)
qed

text \<open>Every escape octet is followed by one of the two escape codes.\<close>

fun escapes_ok :: "bool \<Rightarrow> byte list \<Rightarrow> bool" where
  "escapes_ok esc [] = True"
| "escapes_ok esc (v # vs) =
     (if esc then v \<in> {SLIP_ESCAPE_FRAME, SLIP_ESCAPE_ESCAPE} \<and> escapes_ok False vs else escapes_ok (v = SLIP_ESCAPE) vs)"

lemma receive_octet_safe:
  assumes "ubcsp_inv c" "receive_packet c \<noteq> None" "escapes_ok (receive_slip_escape c) (v # vs)"
  shows "\<exists>a' c'. receive_octet v a c = Ret (a', c') \<and> ubcsp_inv c' \<and> escapes_ok (receive_slip_escape c') vs"
proof (cases "receive_slip_escape c")
  case True
  then obtain w where w: "tbl ubcsp_deslip (int (unat v) - int (unat SLIP_ESCAPE_FRAME)) = Ret w" "escapes_ok False vs"
    using assms(3) by (auto simp: tbl_def ubcsp_deslip_def)
  have "ubcsp_inv (c\<lparr>receive_slip_escape := False\<rparr>)" "receive_packet (c\<lparr>receive_slip_escape := False\<rparr>) \<noteq> None"
    using assms(1,2) by (simp_all add: ubcsp_inv_def send_inv_def)
  from store_octet_safe [OF this, of w] w True show ?thesis by (auto simp: receive_octet_def)
next
  case False
  have esc: "ubcsp_inv (c\<lparr>receive_slip_escape := True\<rparr>)" using assms(1) by (simp add: ubcsp_inv_def send_inv_def)
  obtain a1 c1 where e: "end_of_frame a c = Ret (a1, c1)" "ubcsp_inv c1" "\<not> receive_slip_escape c1"
    using end_of_frame_safe [OF assms(1,2), of a] False by auto
  obtain c2 where "store_octet v c = Ret c2" "ubcsp_inv c2" "\<not> receive_slip_escape c2"
    using store_octet_safe [OF assms(1,2), of v] False by auto
  with e esc False assms(3) show ?thesis by (auto simp: receive_octet_def)
qed

lemma receive_loop_safe:
  "ubcsp_inv c \<Longrightarrow> escapes_ok (receive_slip_escape c) vs \<Longrightarrow> \<exists>a' c'. receive_loop vs a c = Ret (a', c') \<and> ubcsp_inv c'"
proof (induction vs arbitrary: a c)
  case Nil
  then show ?case by (simp add: ubcsp_inv_def send_inv_def)
next
  case (Cons v vs)
  show ?case
  proof (cases "receive_packet c = None")
    case True
    then show ?thesis using Cons.prems by (simp add: ubcsp_inv_def send_inv_def)
  next
    case False
    from receive_octet_safe [OF Cons.prems(1) False Cons.prems(2), of a]
    obtain a1 c1 where "receive_octet v a c = Ret (a1, c1)" "ubcsp_inv c1" "escapes_ok (receive_slip_escape c1) vs" by blast
    with Cons.IH [of c1 a1] False show ?thesis by auto
  qed
qed

lemma poll_receive_safe:
  assumes "ubcsp_inv c" and "escapes_ok (receive_slip_escape c) (uart_rx c)"
  shows "\<exists>a' d c'. poll_receive a dl c = Ret (a', d, c') \<and> ubcsp_inv c'"
proof -
  obtain a1 c1 where "receive_loop (uart_rx c) a c = Ret (a1, c1)" "ubcsp_inv c1" using receive_loop_safe [OF assms] by blast
  then show ?thesis by (simp add: poll_receive_def Let_def ubcsp_inv_def send_inv_def)
qed

text \<open>The sending half leaves what belongs to the receiving half.\<close>

definition same_receiver :: "ubcsp_configuration \<Rightarrow> ubcsp_configuration \<Rightarrow> bool" where
  "same_receiver c c' \<longleftrightarrow> receive_slip_escape c' = receive_slip_escape c \<and> uart_rx c' = uart_rx c"

lemma send_octet_safe:
  assumes "ubcsp_inv c" and "send_size c \<noteq> 0"
  shows "\<exists>c'. send_octet c = Ret c' \<and> same_receiver c c' \<and> send_size c' = send_size c
    \<and> (if send_slip_escape c' \<noteq> 0 then ubcsp_inv c' else ubcsp_inv (c'\<lparr>send_size := send_size c' - 1\<rparr>))"
proof (cases "send_slip_escape c = 0")
  case False
  then show ?thesis using assms
    by (auto simp: send_octet_def put_uart_def same_receiver_def ubcsp_inv_def send_inv_def block_ok_def)
next
  case True
  then obtain bs where bs: "send_ptr c = Some bs" "send_size c \<le> int (length bs)" "0 < send_size c"
    using assms by (auto simp: ubcsp_inv_def send_inv_def block_ok_def)
  then obtain v p where v: "bs = v # p" by (cases bs) auto
  have "block_ok (Some p) (send_size c - 1)" using bs v by (simp add: block_ok_def)
  then show ?thesis using assms(1) True bs v
    by (auto simp: send_octet_def ubcsp_put_slip_uart_def put_uart_def same_receiver_def ubcsp_inv_def send_inv_def)
qed

lemma put_uart_safe: "ubcsp_inv (put_uart v c) = ubcsp_inv c" "same_receiver c (put_uart v c)"
  by (simp_all add: put_uart_def ubcsp_inv_def send_inv_def same_receiver_def)

lemma sent_packet_safe: "ubcsp_inv c \<Longrightarrow> ubcsp_sent_packet c = (a, c') \<Longrightarrow> ubcsp_inv c' \<and> same_receiver c c'"
  by (auto simp: ubcsp_sent_packet_def ubcsp_inv_def send_inv_def same_receiver_def split: option.splits if_splits)

lemma crc_block_safe:
  assumes "ubcsp_inv c" "send_slip_escape c = 0" "next_send_ptr c = None"
  shows "ubcsp_inv (c\<lparr>need_send_crc := False, send_crc := crc, send_ptr := Some [x, y], send_size := 2\<rparr>)"
  using assms by (simp add: ubcsp_inv_def send_inv_def block_ok_def)

lemma next_block_safe:
  assumes "ubcsp_inv c" "next_block c = (a, dl, c')" "send_slip_escape c = 0"
  shows "ubcsp_inv c' \<and> same_receiver c c'"
proof -
  define c1 where "c1 = c\<lparr>send_ptr := next_send_ptr c, send_size := next_send_size c, next_send_ptr := None, next_send_size := 0\<rparr>"
  have 1: "ubcsp_inv c1" "same_receiver c c1" "send_slip_escape c1 = 0" "next_send_ptr c1 = None"
    using assms(1,3) by (simp_all add: c1_def ubcsp_inv_def send_inv_def same_receiver_def block_ok_def)
  note e = assms(2) [unfolded next_block_def Let_def, folded c1_def]
  show ?thesis
  proof (cases "send_ptr c1 = None")
    case False
    then have "c' = c1" using e by (auto split: if_splits)
    then show ?thesis using 1 by simp
  next
    case None: True
    show ?thesis
    proof (cases "need_send_crc c1")
      case True
      have "same_receiver c1 c'" using e None True by (auto simp: same_receiver_def)
      moreover have "ubcsp_inv c'" using e None True crc_block_safe [OF 1(1,3,4)] by auto
      ultimately show ?thesis using 1(2) by (simp add: same_receiver_def)
    next
      case False
      obtain b c2 where b: "ubcsp_sent_packet (put_uart SLIP_FRAME c1) = (b, c2)" by fastforce
      have "ubcsp_inv (put_uart SLIP_FRAME c1)" using 1(1) by (simp add: put_uart_safe)
      from sent_packet_safe [OF this b] show ?thesis
        using e None False b 1(2) put_uart_safe(2) [of c1 SLIP_FRAME] by (simp add: same_receiver_def)
    qed
  qed
qed

lemma poll_block_safe:
  assumes "ubcsp_inv c" and "send_size c \<noteq> 0"
  shows "\<exists>a dl c'. poll_block c = Ret (a, dl, c') \<and> ubcsp_inv c' \<and> same_receiver c c'"
proof -
  obtain c1 where c1: "send_octet c = Ret c1" "same_receiver c c1" "send_size c1 = send_size c"
      "if send_slip_escape c1 \<noteq> 0 then ubcsp_inv c1 else ubcsp_inv (c1\<lparr>send_size := send_size c1 - 1\<rparr>)"
    using send_octet_safe [OF assms] by blast
  show ?thesis
  proof (cases "send_slip_escape c1 = 0")
    case True
    let ?c2 = "c1\<lparr>send_size := send_size c1 - 1\<rparr>"
    obtain a dl c3 where n: "next_block ?c2 = (a, dl, c3)" by (metis prod_cases3)
    have "ubcsp_inv c3" "same_receiver ?c2 c3" using next_block_safe [OF _ n] c1(4) True by simp_all
    then show ?thesis using c1 True n by (cases "send_size c1 = 1") (simp_all add: poll_block_def same_receiver_def Let_def)
  next
    case False
    then show ?thesis using c1 by (simp add: poll_block_def)
  qed
qed

lemma setup_safe:
  assumes "ubcsp_inv c" "length h = 4" "block_ok p (int (unat n))"
  shows "ubcsp_inv (ubcsp_setup_packet h calc p n c) \<and> same_receiver c (ubcsp_setup_packet h calc p n c)"
  using assms by (simp add: ubcsp_setup_packet_def same_receiver_def ubcsp_inv_def send_inv_def block_ok_def)

lemma inv_flags: "ubcsp_inv (c\<lparr>send_ack := b\<rparr>) = ubcsp_inv c" "ubcsp_inv c \<Longrightarrow> ubcsp_inv (c\<lparr>link_establishment_resp := 0\<rparr>)"
    "ubcsp_inv (c\<lparr>delay := d\<rparr>) = ubcsp_inv c" "ubcsp_inv (c\<lparr>link_establishment_packet := k\<rparr>) = ubcsp_inv c"
  by (simp_all add: ubcsp_inv_def send_inv_def)

lemma poll_idle_safe:
  assumes "ubcsp_inv c" and "poll_idle c = (a, dl, c')"
  shows "ubcsp_inv c' \<and> same_receiver c c'"
proof -
  have 4: "block_ok (Some (ubcsp_le_buffer ! le_packet_num Le_Conf_Resp)) (int (unat (4 :: u16)))"
    by (simp add: block_ok_def ubcsp_le_buffer_def)
  have s: "send_packet c = Some p \<Longrightarrow> block_ok (payload p) (int (unat (pk_length p)))" for p
    using assms(1) by (auto simp: ubcsp_inv_def sendable_def)
  have 0: "block_ok None (int (unat (0 :: u16)))" by (simp add: block_ok_def)
  note pu = put_uart_safe(1) [of SLIP_FRAME c, THEN iffD2, OF assms(1)]
  show ?thesis
    using assms setup_safe [OF pu _ 4] setup_safe [OF pu _ s] setup_safe [OF pu _ 0] put_uart_safe(2) [of c SLIP_FRAME]
    by (auto simp: poll_idle_def inv_flags same_receiver_def split: if_splits option.splits)
qed

lemma poll_le_safe:
  assumes "ubcsp_inv c" and "link_establishment_packet c \<noteq> Le_None"
  shows "\<exists>c'. poll_le c = Ret c' \<and> ubcsp_inv c' \<and> same_receiver c c'"
proof -
  let ?i = "le_packet_num (link_establishment_packet c)"
  have i: "?i < 4" using assms(2) by (cases "link_establishment_packet c") simp_all
  then have m: "tbl ubcsp_le_buffer (int ?i) = Ret (ubcsp_le_buffer ! ?i)" by (simp add: tbl_def ubcsp_le_buffer_def)
  have "?i \<in> {0, 1, 2, 3}" using i by auto
  then have 4: "block_ok (Some (ubcsp_le_buffer ! ?i)) (int (unat (4 :: u16)))"
    by (auto simp: block_ok_def ubcsp_le_buffer_def)
  have r: "link_establishment_resp c \<le> 2" using assms(1) by (simp add: ubcsp_inv_def)
  have "le_state_num (link_establishment_state c) \<le> 2" by (cases "link_establishment_state c") simp_all
  then have "le_state_num (link_establishment_state c) + link_establishment_resp c * 4 < 16" using r by linarith
  then have n: "\<exists>nx. tbl next_le_packet (int (le_state_num (link_establishment_state c) + link_establishment_resp c * 4)) = Ret nx"
    by (simp add: tbl_def next_le_packet_def)
  note pu = put_uart_safe(1) [of SLIP_FRAME c, THEN iffD2, OF assms(1)]
  show ?thesis
    using m n setup_safe [OF pu _ 4, of ubcsp_send_le_header False] put_uart_safe(2) [of c SLIP_FRAME]
    by (auto simp: poll_le_def Let_def inv_flags same_receiver_def) (auto simp: ubcsp_setup_packet_def put_uart_def ubcsp_inv_def send_inv_def)
qed

lemma poll_safe_step:
  assumes "ubcsp_inv c" and "escapes_ok (receive_slip_escape c) (uart_rx c)"
  shows "\<exists>a d c'. ubcsp_poll c = Ret (a, d, c') \<and> ubcsp_inv c'"
proof -
  have r: "\<exists>a' d c2. poll_receive a dl c1 = Ret (a', d, c2) \<and> ubcsp_inv c2" if "ubcsp_inv c1" "same_receiver c c1" for a dl c1
    using poll_receive_safe [OF that(1)] that(2) assms(2) by (simp add: same_receiver_def)
  consider "delay c \<noteq> 0" | "delay c = 0" "send_size c \<noteq> 0" | "delay c = 0" "send_size c = 0" "link_establishment_packet c = Le_None"
    | "delay c = 0" "send_size c = 0" "link_establishment_packet c \<noteq> Le_None" by blast
  then show ?thesis
  proof cases
    case 1
    then show ?thesis using r [OF assms(1), of 0 0] by (simp add: ubcsp_poll_def same_receiver_def)
  next
    case 2
    obtain a dl c1 where "poll_block c = Ret (a, dl, c1)" "ubcsp_inv c1" "same_receiver c c1"
      using poll_block_safe [OF assms(1) 2(2)] by blast
    then show ?thesis using r [of c1 a dl] 2 by (simp add: ubcsp_poll_def)
  next
    case 3
    obtain a dl c1 where i: "poll_idle c = (a, dl, c1)" by (metis prod_cases3)
    then show ?thesis using r [of c1 a dl] poll_idle_safe [OF assms(1) i] 3 by (simp add: ubcsp_poll_def)
  next
    case 4
    then show ?thesis using poll_le_safe [OF assms(1) 4(3)] by (auto simp: ubcsp_poll_def)
  qed
qed

lemma receive_octet_keeps:
  assumes "ubcsp_inv c" "receive_packet c \<noteq> None" "receive_octet v a c = Ret (a', c')"
  shows "ubcsp_inv c'"
proof (cases "receive_slip_escape c")
  case True
  then obtain w where "store_octet w (c\<lparr>receive_slip_escape := False\<rparr>) = Ret c'" using assms(3) by (auto simp: receive_octet_def)
  moreover have "ubcsp_inv (c\<lparr>receive_slip_escape := False\<rparr>)" "receive_packet (c\<lparr>receive_slip_escape := False\<rparr>) \<noteq> None"
    using assms(1,2) by (simp_all add: ubcsp_inv_def send_inv_def)
  ultimately show ?thesis using store_octet_safe [of "c\<lparr>receive_slip_escape := False\<rparr>" w] by auto
next
  case False
  then have "escapes_ok (receive_slip_escape c) [v]" by simp
  from receive_octet_safe [OF assms(1,2) this, of a] assms(3) show ?thesis by simp
qed

lemma receive_loop_keeps: "ubcsp_inv c \<Longrightarrow> receive_loop vs a c = Ret (a', c') \<Longrightarrow> ubcsp_inv c'"
proof (induction vs arbitrary: a c)
  case Nil
  then show ?case by (auto simp: ubcsp_inv_def send_inv_def)
next
  case (Cons v vs)
  show ?case
  proof (cases "receive_packet c = None")
    case True
    then show ?thesis using Cons.prems by (auto simp: ubcsp_inv_def send_inv_def)
  next
    case False
    then obtain a1 c1 where "receive_octet v a c = Ret (a1, c1)" "receive_loop vs a1 c1 = Ret (a', c')" using Cons.prems(2) by auto
    then show ?thesis using Cons.IH receive_octet_keeps [OF Cons.prems(1) False] by blast
  qed
qed

lemma poll_receive_keeps: "ubcsp_inv c \<Longrightarrow> poll_receive a dl c = Ret (a', d, c') \<Longrightarrow> ubcsp_inv c'"
  using receive_loop_keeps [of c "uart_rx c" a] by (auto simp: poll_receive_def Let_def inv_flags)

lemma poll_keeps:
  assumes "ubcsp_inv c" and "ubcsp_poll c = Ret (a, d, c')"
  shows "ubcsp_inv c'"
proof -
  consider "poll_receive 0 0 c = Ret (a, d, c')"
    | b dl c1 where "send_size c \<noteq> 0" "poll_block c = Ret (b, dl, c1)" "poll_receive b dl c1 = Ret (a, d, c')"
    | b dl c1 where "poll_idle c = (b, dl, c1)" "poll_receive b dl c1 = Ret (a, d, c')"
    | "link_establishment_packet c \<noteq> Le_None" "poll_le c = Ret c'"
    using assms(2) by (auto simp: ubcsp_poll_def split: if_splits prod.splits)
  then show ?thesis
  proof cases
    case 1
    then show ?thesis using poll_receive_keeps [OF assms(1)] by blast
  next
    case 2
    then show ?thesis using poll_block_safe [OF assms(1) 2(1)] poll_receive_keeps [of c1] by auto
  next
    case 3
    then show ?thesis using poll_idle_safe [OF assms(1) 3(1)] poll_receive_keeps [of c1] by blast
  next
    case 4
    then show ?thesis using poll_le_safe [OF assms(1) 4(1)] by auto
  qed
qed

text \<open>
  The engine as its caller drives it: the statics start at zero, octets arrive, buffers are
  passed that are as long as they say (and hold at least a link establishment message), and
  the engine is polled.
\<close>

definition ubcsp_statics :: ubcsp_configuration where
  "ubcsp_statics = \<lparr>link_establishment_state = Le_Uninitialized, link_establishment_resp = 0, link_establishment_packet = Le_Sync,
     sequence_number = 0, ack_number = 0, send_ack = False, send_packet = None, receive_packet = None,
     receive_slip_escape = False, receive_index = 0, need_send_crc = False, send_crc = 0, send_slip_escape = 0,
     send_ptr = None, send_size = 0, next_send_ptr = None, next_send_size = 0, delay = 0,
     receive_header = [0, 0, 0, 0], uart_tx = [], uart_rx = [], handed_back = []\<rparr>"

inductive engine :: "ubcsp_configuration \<Rightarrow> bool" where
  start: "engine (ubcsp_initialize ubcsp_statics)"
| arrive: "engine c \<Longrightarrow> engine (c\<lparr>uart_rx := uart_rx c @ vs\<rparr>)"
| send: "engine c \<Longrightarrow> sendable p \<Longrightarrow> engine (ubcsp_send_packet p c)"
| receive: "engine c \<Longrightarrow> receivable p \<Longrightarrow> engine (ubcsp_receive_packet p c)"
| reset: "engine c \<Longrightarrow> engine (ubcsp_initialize c)"
| poll: "engine c \<Longrightarrow> ubcsp_poll c = Ret (a, d, c') \<Longrightarrow> engine c'"

lemma engine_inv: "engine c \<Longrightarrow> ubcsp_inv c"
proof (induction rule: engine.induct)
  case start
  show ?case by (simp add: ubcsp_statics_def ubcsp_initialize_def ubcsp_inv_def send_inv_def block_ok_def)
next
  case (poll c a d c')
  then show ?case by (simp add: poll_keeps)
next
  case (send c p)
  then show ?case by (auto simp: ubcsp_send_packet_def ubcsp_inv_def send_inv_def)
next
  case (receive c p)
  have "-4 \<le> uint (pk_length p)" using uint_ge_0 [of "pk_length p"] by linarith
  with receive show ?case by (auto simp: ubcsp_receive_packet_def ubcsp_inv_def send_inv_def)
next
  case (reset c)
  then show ?case by (auto simp: ubcsp_initialize_def ubcsp_inv_def send_inv_def)
qed (auto simp: ubcsp_inv_def send_inv_def)

text \<open>
  C16: the engine never reads or writes outside its tables, pointers and buffers, whatever
  octets arrive, with one exception: in every state a caller can bring it to, the next poll
  returns provided that each escape octet among the received ones is followed by one of the
  two escape codes.
\<close>

theorem poll_memory_safe:
  assumes "engine c" and "escapes_ok (receive_slip_escape c) (uart_rx c)"
  shows "\<exists>a d c'. ubcsp_poll c = Ret (a, d, c') \<and> ubcsp_inv c'"
  by (rule poll_safe_step [OF engine_inv [OF assms(1)] assms(2)])

theorem poll_memory_safe_witness:
  "\<exists>a d c'. ubcsp_poll ((ubcsp_initialize ubcsp_statics)\<lparr>uart_rx := uart_rx (ubcsp_initialize ubcsp_statics) @ [0xC0, 0xDB, 0xDC]\<rparr>) = Ret (a, d, c')
     \<and> ubcsp_inv c'"
proof -
  let ?c = "(ubcsp_initialize ubcsp_statics)\<lparr>uart_rx := uart_rx (ubcsp_initialize ubcsp_statics) @ [0xC0, 0xDB, 0xDC]\<rparr>"
  have "engine ?c" by (intro engine.arrive engine.start)
  moreover have "escapes_ok (receive_slip_escape ?c) (uart_rx ?c)" by (simp add: ubcsp_initialize_def ubcsp_statics_def)
  ultimately show ?thesis by (rule poll_memory_safe)
qed

text \<open>
  C38: an escape octet followed by anything but the two escape codes makes the engine read
  outside its table \<open>ubcsp_deslip\<close>: the warning in the code expects the octet found there to
  be caught by the checksum, but nothing bounds the index.
\<close>

theorem bad_escape_reads_outside:
  assumes "receive_packet c \<noteq> None" and "delay c \<noteq> 0" and "\<not> receive_slip_escape c"
    and "uart_rx c = SLIP_ESCAPE # v # vs" and "v \<notin> {SLIP_ESCAPE_FRAME, SLIP_ESCAPE_ESCAPE}"
  shows "ubcsp_poll c = Fault"
proof -
  have "tbl ubcsp_deslip (int (unat v) - int (unat SLIP_ESCAPE_FRAME)) = Fault"
  proof (rule ccontr)
    assume "\<not> ?thesis"
    then have "0xDC \<le> uint v" "uint v < 0xDE" by (auto simp: tbl_def ubcsp_deslip_def split: if_splits)
    then have "unat v = 0xDC \<or> unat v = 0xDD" unfolding uint_nat by linarith
    then have "v = 0xDC \<or> v = 0xDD" by (auto simp: word_unat_eq_iff)
    then show False using assms(5) by simp
  qed
  moreover obtain p where "receive_packet c = Some p" using assms(1) by blast
  ultimately show ?thesis using assms(2-5) by (simp add: ubcsp_poll_def poll_receive_def receive_octet_def)
qed

definition ex_engine :: "byte list \<Rightarrow> ubcsp_configuration" where
  "ex_engine rx = (ubcsp_initialize ubcsp_statics)\<lparr>link_establishment_state := Le_Active, link_establishment_packet := Le_None, delay := 5,
     receive_packet := Some \<lparr>channel = 0, reliable = 0, use_crc = 0, pk_length = 8, payload = Some (replicate 8 0)\<rparr>, uart_rx := rx\<rparr>"

theorem bad_escape_reads_outside_witness: "ubcsp_poll (ex_engine [0xDB, 0x00]) = Fault"
  by (rule bad_escape_reads_outside [where v = 0 and vs = "[]"]) (simp_all add: ex_engine_def ubcsp_initialize_def ubcsp_statics_def)

text \<open>
  C17: the checksum computed four bits at a time from a table of 16 words is the bitwise
  division by the CCITT polynomial, over any string of octets, and \<open>ubcsp_crc_reverse\<close>
  mirrors its bits.
\<close>

theorem crc_is_bitwise_ccitt:
  "crc_fold bs crc = fold crc_bitwise bs crc \<and> (bit (ubcsp_crc_reverse crc) n \<longleftrightarrow> n < 16 \<and> bit crc (15 - n))"
proof
  show "crc_fold bs crc = fold crc_bitwise bs crc"
    by (induction bs arbitrary: crc) (simp_all add: calc_crc_bitwise)
  show "bit (ubcsp_crc_reverse crc) n \<longleftrightarrow> n < 16 \<and> bit crc (15 - n)"
    using crc_reverse_bits [of n crc] bit_imp_le_length [of "ubcsp_crc_reverse crc" n] by (cases "n < 16") auto
qed

definition ex_packet :: ubcsp_packet where
  "ex_packet = \<lparr>channel = 5, reliable = 1, use_crc = 0, pk_length = 2, payload = Some [0xC0, 0x11]\<rparr>"

definition ex_sender :: "ubcsp_packet \<Rightarrow> ubcsp_configuration" where
  "ex_sender p = (ubcsp_initialize ubcsp_statics)\<lparr>link_establishment_state := Le_Active, link_establishment_packet := Le_None,
     send_packet := Some p\<rparr>"

lemma ex_sender_ready: "ready_to_send p (ex_sender p)"
  by (simp add: ready_to_send_def ex_sender_def ubcsp_initialize_def ubcsp_statics_def)

lemma ex_engine_ready:
  "ready_to_receive \<lparr>channel = 0, reliable = 0, use_crc = 0, pk_length = 8, payload = Some (replicate 8 0)\<rparr> (replicate 8 0) (ex_engine rx)"
  by (simp add: ready_to_receive_def ex_engine_def ubcsp_initialize_def ubcsp_statics_def)

theorem poll_sends_frame_witness:
  "\<exists>c'. polls (length (frame (sealed (send_header ex_packet (ex_sender ex_packet))) [0xC0, 0x11]) - 1) (ex_sender ex_packet) = Ret (0, c')
     \<and> send_packet c' = Some ex_packet"
  using poll_sends_frame [OF ex_sender_ready, of ex_packet "[0xC0, 0x11]"] by (auto simp: ex_packet_def)

theorem empty_payload_never_sent_witness:
  "\<exists>c'. polls (3 * (1 + length (slips (sealed (send_header (ex_packet\<lparr>pk_length := 0\<rparr>) (ex_sender (ex_packet\<lparr>pk_length := 0\<rparr>)))))))
      (ex_sender (ex_packet\<lparr>pk_length := 0\<rparr>)) = Ret (0, c') \<and> ready_to_send (ex_packet\<lparr>pk_length := 0\<rparr>) c'"
  using empty_payload_never_sent [OF ex_sender_ready, of "ex_packet\<lparr>pk_length := 0\<rparr>" "[0xC0, 0x11]" 3]
  by (auto simp: ex_packet_def)

theorem frame_delivered_witness:
  "\<exists>a d r'. ubcsp_poll (ex_engine (frame (sealed (send_header ex_packet (ex_sender ex_packet))) [0xC0, 0x11])) = Ret (a, d, r')
     \<and> delivered ex_packet 0 [0xC0, 0x11] a (ex_engine (frame (sealed (send_header ex_packet (ex_sender ex_packet))) [0xC0, 0x11])) r'"
proof -
  let ?r = "ex_engine (frame (sealed (send_header ex_packet (ex_sender ex_packet))) [0xC0, 0x11])"
  have s: "sequence_number (ex_sender ex_packet) = 0" by (simp add: ex_sender_def ubcsp_initialize_def)
  have "\<exists>a d r'. ubcsp_poll ?r = Ret (a, d, r') \<and> delivered ex_packet (sequence_number (ex_sender ex_packet)) [0xC0, 0x11] a ?r r' \<and> uart_rx r' = []
    \<and> send_packet r' = (if ack_number (ex_sender ex_packet) \<noteq> sequence_number ?r \<and> (\<exists>p. send_packet ?r = Some p \<and> reliable p \<noteq> 0)
                          then None else send_packet ?r)"
    by (rule frame_delivered [OF ex_engine_ready])
      (simp_all add: ex_engine_def ubcsp_initialize_def ubcsp_statics_def, simp_all add: ex_packet_def)
  then show ?thesis unfolding s by blast
qed

subsection \<open>Link establishment messages\<close>

lemma le_header_fields:
  "header_ok ubcsp_send_le_header" "header_crc ubcsp_send_le_header" "header_ack ubcsp_send_le_header = 0"
  "unat (header_length ubcsp_send_le_header) = 4" "ubcsp_send_le_header ! 0 AND 0x80 = 0" "ubcsp_send_le_header ! 1 AND 0x0f = 1"
  by (simp_all add: header_ok_def header_crc_def header_ack_def header_length_def ubcsp_send_le_header_def)

lemma le_same_eq: "length xs \<le> length p \<Longrightarrow> le_same p xs = Ret (take (length xs) p = xs)"
  by (induction p xs rule: le_same.induct) auto

lemma le_buffer_facts: "\<forall>b \<in> set ubcsp_le_buffer. length b = 4" "distinct ubcsp_le_buffer" "length ubcsp_le_buffer = 4"
  by (simp_all add: ubcsp_le_buffer_def)

lemma le_search_found:
  "\<forall>b \<in> set bs. length b = 4 \<Longrightarrow> distinct bs \<Longrightarrow> n < length bs \<Longrightarrow> le_search bs i (bs ! n @ rest) = Ret (i + n)"
proof (induction bs arbitrary: n i)
  case (Cons b bs)
  have l: "length ((b # bs) ! n) = 4" using Cons.prems(1,3) nth_mem by blast
  have s: "le_same ((b # bs) ! n @ rest) b = Ret ((b # bs) ! n = b)"
    using Cons.prems(1) l by (subst le_same_eq) auto
  show ?case
  proof (cases n)
    case (Suc m)
    then have "bs ! m \<noteq> b" using Cons.prems nth_mem [of m bs] by auto
    then show ?thesis using Suc s Cons.IH [of m "i + 1"] Cons.prems by simp
  qed (use s in simp)
qed simp

lemma le_message_recognised: "n < 4 \<Longrightarrow> ubcsp_which_le_payload (ubcsp_le_buffer ! n @ rest) = Ret n"
  using le_search_found [of ubcsp_le_buffer n 0 rest] le_buffer_facts by (simp add: ubcsp_which_le_payload_def)

definition le_frame :: "nat \<Rightarrow> byte list" where
  "le_frame n = frame ubcsp_send_le_header (ubcsp_le_buffer ! n)"

text \<open>Receiving a link establishment message is \<open>take_ack\<close> with acknowledgement number 0, then the message.\<close>

lemma le_received:
  assumes "n < 4"
  defines "h \<equiv> ubcsp_send_le_header"
  defines "bs \<equiv> ubcsp_le_buffer ! n @ crc_octets (h @ ubcsp_le_buffer ! n)"
  obtains p a c where "take_ack 0 ((filled h bs b q r)\<lparr>receive_packet := Some p, receive_index := 4\<rparr>) = (a, c)"
    "ubcsp_recevied_packet (filled h bs b q r) = Ret (receive_le n a (c\<lparr>delay := 0\<rparr>))"
proof -
  let ?m = "ubcsp_le_buffer ! n" and ?rest = "drop (length bs) q"
  have m: "length ?m = 4" using le_buffer_facts(1,3) assms(1) nth_mem by metis
  define p where "p = decode_header h (b\<lparr>payload := Some (bs @ ?rest)\<rparr>)"
  have chk: "check_packet h (payload p) (int (length bs)) = Ret (Some 4)"
    using check_packet_accepts [of h ?m ?rest] le_header_fields m by (simp add: p_def decode_header_def h_def bs_def)
  obtain a c where t: "take_ack 0 ((filled h bs b q r)\<lparr>receive_packet := Some p, receive_index := 4\<rparr>) = (a, c)" by fastforce
  have ch: "channel p = 1" "payload p = Some (?m @ crc_octets (h @ ?m) @ ?rest)"
    using le_header_fields(6) by (simp_all add: p_def decode_header_def h_def bs_def)
  have "ubcsp_recevied_packet (filled h bs b q r)
      = accept_packet h p 4 ((filled h bs b q r)\<lparr>receive_packet := Some p, receive_index := 4\<rparr>)"
    using chk le_header_fields(1)
    by (simp add: ubcsp_recevied_packet_def Let_def h_def [symmetric] p_def [symmetric] filled_def)
  also have "\<dots> = Ret (receive_le n a (c\<lparr>delay := 0\<rparr>))"
    using t ch le_header_fields(3) le_message_recognised [OF assms(1)] by (simp add: accept_packet_def h_def)
  finally show thesis using that t by blast
qed

text \<open>What a message does to the state of the link, and which answer it makes due.\<close>

fun le_after :: "nat \<Rightarrow> le_state \<Rightarrow> le_state" where
  "le_after n st = (if n = 0 \<and> st = Le_Active then Le_Uninitialized else if n = 1 \<and> st = Le_Uninitialized then Le_Initialized
     else if n = 3 then Le_Active else st)"

fun le_answer :: "nat \<Rightarrow> le_state \<Rightarrow> nat \<Rightarrow> nat" where
  "le_answer n st old = (if n = 0 \<and> st \<noteq> Le_Active then 1 else if n = 2 \<and> st \<noteq> Le_Uninitialized then 2 else old)"

text \<open>A reliable packet in transmission that an acknowledgement number of 0 is taken to acknowledge.\<close>

definition releases :: "ubcsp_configuration \<Rightarrow> bool" where
  "releases r \<longleftrightarrow> sequence_number r \<noteq> 0 \<and> (\<exists>p. send_packet r = Some p \<and> reliable p \<noteq> 0)"

lemma le_poll:
  assumes "ready_to_receive b q r" and "n < 4" and "uart_rx r = le_frame n" and "0 < delay r" and "6 \<le> unat (pk_length b)"
  obtains a0 a c d r' where "ubcsp_poll r = Ret (a, d, r'\<lparr>receive_index := -4, uart_rx := [], delay := d\<rparr>)" "receive_le n a0 c = (a, r')"
    "a0 = (if releases r then UBCSP_PACKET_SENT else 0)" "send_packet c = (if releases r then None else send_packet r)"
    "sequence_number c = sequence_number r + (if releases r then 1 else 0)" "handed_back c = handed_back r"
    "link_establishment_state c = link_establishment_state r" "link_establishment_resp c = link_establishment_resp r"
proof -
  let ?h = ubcsp_send_le_header and ?m = "ubcsp_le_buffer ! n"
  let ?bs = "?m @ crc_octets (?h @ ?m)"
  have m: "length ?m = 4" using le_buffer_facts(1,3) assms(2) nth_mem by metis
  have len: "length ?bs \<le> unat (pk_length b)" "length ?h = 4" using assms(5) m by simp_all
  have rx: "uart_rx r = SLIP_FRAME # slips (?h @ ?bs) @ [SLIP_FRAME]" using assms(3) by (simp add: le_frame_def frame_def)
  obtain p a0 c where c: "take_ack 0 ((filled ?h ?bs b q r)\<lparr>receive_packet := Some p, receive_index := 4\<rparr>) = (a0, c)"
    "ubcsp_recevied_packet (filled ?h ?bs b q r) = Ret (receive_le n a0 (c\<lparr>delay := 0\<rparr>))"
    by (rule le_received [OF assms(2)])
  obtain a r' where r: "receive_le n a0 (c\<lparr>delay := 0\<rparr>) = (a, r')" by fastforce
  obtain d where d: "ubcsp_poll r = Ret (a, d, r'\<lparr>receive_index := -4, uart_rx := [], delay := d\<rparr>)"
    by (rule poll_frame [OF assms(1,4) len(2,1) rx c(2) [unfolded r]])
  have z: "(0 :: byte) = ucast (sequence_number r) \<longleftrightarrow> sequence_number r = 0"
    using ucast3_eq [of 0 "sequence_number r"] by auto
  show thesis
    by (rule that [OF d r]) (use c(1) in \<open>auto simp: take_ack_def filled_def releases_def z split: if_splits option.splits\<close>)
qed

text \<open>
  C18: the link establishment messages drive the link as the protocol has it. In every state
  the next poll of an engine that waits with a buffer of at least six octets recognises the
  message: SYNC makes an answer due or, on an active link, resets the engine and reports it;
  SYNC RESP initialises the link; CONF makes an answer due once the link is initialised; CONF
  RESP makes the link active and reports that a packet can be sent. No message is handed to
  the caller as data.
\<close>

theorem link_message_received:
  assumes "ready_to_receive b q r" and "n < 4" and "uart_rx r = le_frame n" and "0 < delay r" and "6 \<le> unat (pk_length b)"
  shows "\<exists>a d r'. ubcsp_poll r = Ret (a, d, r') \<and> link_establishment_state r' = le_after n (link_establishment_state r)
    \<and> link_establishment_resp r' = le_answer n (link_establishment_state r) (link_establishment_resp r)
    \<and> handed_back r' = handed_back r
    \<and> (a AND UBCSP_PEER_RESET \<noteq> 0 \<longleftrightarrow> n = 0 \<and> link_establishment_state r = Le_Active)
    \<and> (n = 3 \<and> link_establishment_state r \<noteq> Le_Active \<longrightarrow> a AND UBCSP_PACKET_SENT \<noteq> 0)
    \<and> (n = 0 \<and> link_establishment_state r = Le_Active \<longrightarrow>
         sequence_number r' = 0 \<and> ack_number r' = 0 \<and> send_size r' = 0 \<and> link_establishment_packet r' = Le_Sync)"
proof -
  obtain a0 a c d r' where p: "ubcsp_poll r = Ret (a, d, r'\<lparr>receive_index := -4, uart_rx := [], delay := d\<rparr>)" "receive_le n a0 c = (a, r')"
    "a0 = (if releases r then UBCSP_PACKET_SENT else 0)" "handed_back c = handed_back r"
    "link_establishment_state c = link_establishment_state r" "link_establishment_resp c = link_establishment_resp r"
    by (rule le_poll [OF assms])
  have "n \<in> {0, 1, 2, 3}" using assms(2) by auto
  with p(2-6) have "link_establishment_state r' = le_after n (link_establishment_state r)"
    "link_establishment_resp r' = le_answer n (link_establishment_state r) (link_establishment_resp r)" "handed_back r' = handed_back r"
    "a AND UBCSP_PEER_RESET \<noteq> 0 \<longleftrightarrow> n = 0 \<and> link_establishment_state r = Le_Active"
    "n = 3 \<and> link_establishment_state r \<noteq> Le_Active \<longrightarrow> a AND UBCSP_PACKET_SENT \<noteq> 0"
    "n = 0 \<and> link_establishment_state r = Le_Active \<longrightarrow>
         sequence_number r' = 0 \<and> ack_number r' = 0 \<and> send_size r' = 0 \<and> link_establishment_packet r' = Le_Sync"
    by (auto simp: receive_le_def ubcsp_initialize_def split: if_splits)
  with p(1) show ?thesis by (intro exI [of _ a] exI [of _ d] exI [of _ "r'\<lparr>receive_index := -4, uart_rx := [], delay := d\<rparr>"]) simp
qed

theorem link_message_received_witness:
  "\<exists>a d r'. ubcsp_poll (ex_engine (le_frame 0)) = Ret (a, d, r') \<and> link_establishment_state r' = Le_Uninitialized"
proof -
  have "link_establishment_state (ex_engine (le_frame 0)) = Le_Active" by (simp add: ex_engine_def)
  with link_message_received [OF ex_engine_ready, of 0 "le_frame 0"] show ?thesis by (auto simp: ex_engine_def)
qed

text \<open>
  C36: a link establishment message acknowledges data that was never received. Its header has
  acknowledgement number 0, which is compared with the sequence number like that of any other
  packet: on an active link with a reliable packet in transmission and a sequence number other
  than 0, a CONF of the peer releases this packet and reports it as sent.
\<close>

theorem conf_releases_packet:
  assumes "ready_to_receive b q r" and "uart_rx r = le_frame 2" and "0 < delay r" and "6 \<le> unat (pk_length b)"
    and "link_establishment_state r = Le_Active" and "send_packet r = Some p" and "reliable p \<noteq> 0" and "sequence_number r \<noteq> 0"
  shows "\<exists>a d r'. ubcsp_poll r = Ret (a, d, r') \<and> a AND UBCSP_PACKET_SENT \<noteq> 0 \<and> send_packet r' = None
    \<and> sequence_number r' = sequence_number r + 1 \<and> link_establishment_state r' = Le_Active"
proof -
  obtain a0 a c d r' where q: "ubcsp_poll r = Ret (a, d, r'\<lparr>receive_index := -4, uart_rx := [], delay := d\<rparr>)" "receive_le 2 a0 c = (a, r')"
    "a0 = (if releases r then UBCSP_PACKET_SENT else 0)" "send_packet c = (if releases r then None else send_packet r)"
    "sequence_number c = sequence_number r + (if releases r then 1 else 0)" "link_establishment_state c = link_establishment_state r"
    by (rule le_poll [OF assms(1) _ assms(2-4)]) simp_all
  have "releases r" using assms(6-8) by (simp add: releases_def)
  then have "a AND UBCSP_PACKET_SENT \<noteq> 0" "send_packet r' = None" "sequence_number r' = sequence_number r + 1" "link_establishment_state r' = Le_Active"
    using q(2-6) assms(5) by (auto simp: receive_le_def)
  with q(1) show ?thesis by (intro exI [of _ a] exI [of _ d] exI [of _ "r'\<lparr>receive_index := -4, uart_rx := [], delay := d\<rparr>"]) simp
qed

theorem conf_releases_packet_witness:
  "\<exists>a d r'. ubcsp_poll ((ex_engine (le_frame 2))\<lparr>send_packet := Some ex_packet, sequence_number := 1\<rparr>) = Ret (a, d, r') \<and> send_packet r' = None"
proof -
  let ?r = "(ex_engine (le_frame 2))\<lparr>send_packet := Some ex_packet, sequence_number := 1\<rparr>"
  let ?b = "\<lparr>channel = 0, reliable = 0, use_crc = 0, pk_length = 8, payload = Some (replicate 8 0)\<rparr>"
  have "ready_to_receive ?b (replicate 8 0) ?r" using ex_engine_ready [of "le_frame 2"] by (simp add: ready_to_receive_def)
  then have "\<exists>a d r'. ubcsp_poll ?r = Ret (a, d, r') \<and> a AND UBCSP_PACKET_SENT \<noteq> 0 \<and> send_packet r' = None
    \<and> sequence_number r' = sequence_number ?r + 1 \<and> link_establishment_state r' = Le_Active"
    by (rule conf_releases_packet [where p = ex_packet]) (simp_all add: ex_engine_def ex_packet_def)
  then show ?thesis by blast
qed

end
