(* ===== verification/Spec2Isabelle.thy ===== *)
theory Spec2Isabelle
  imports SDP_Sessions UBCSP_Engine
begin

end
